theory Spec2Isabelle
  imports Complex_Main
begin

section \<open>Tensor values\<close>

text \<open>
  The tensors of \<^verbatim>\<open>keras_retinanet/losses.py\<close> hold numbers of type \<^verbatim>\<open>K.floatx()\<close>.
  A tensor element is a finite number or one of the three special values. Finite
  arithmetic is exact here: rounding, overflow and the sign of zero are left out, a zero
  divisor counts as \<open>+0\<close>, and the special values behave as in IEEE 754. Python floats
  (\<^verbatim>\<open>alpha\<close>, \<^verbatim>\<open>gamma\<close>, \<^verbatim>\<open>delta\<close>, \<^verbatim>\<open>sigma\<close>) are reals. The overlap of two boxes
  is given with float32 rounding as well, further down.
\<close>

datatype fl = Fin real | PInf | NInf | NaN

fun is_Fin :: "fl \<Rightarrow> bool" where
  "is_Fin (Fin x) = True"
| "is_Fin v = False"

fun the_Fin :: "fl \<Rightarrow> real" where
  "the_Fin (Fin x) = x"
| "the_Fin v = 0"

fun fl_neg :: "fl \<Rightarrow> fl" where
  "fl_neg (Fin x) = Fin (- x)"
| "fl_neg PInf = NInf"
| "fl_neg NInf = PInf"
| "fl_neg NaN = NaN"

fun fl_add :: "fl \<Rightarrow> fl \<Rightarrow> fl" where
  "fl_add NaN b = NaN"
| "fl_add a NaN = NaN"
| "fl_add (Fin x) (Fin y) = Fin (x + y)"
| "fl_add PInf NInf = NaN"
| "fl_add NInf PInf = NaN"
| "fl_add PInf b = PInf"
| "fl_add a PInf = PInf"
| "fl_add NInf b = NInf"
| "fl_add a NInf = NInf"

definition fl_sub :: "fl \<Rightarrow> fl \<Rightarrow> fl" where
  "fl_sub a b = fl_add a (fl_neg b)"

fun fl_mul :: "fl \<Rightarrow> fl \<Rightarrow> fl" where
  "fl_mul NaN b = NaN"
| "fl_mul a NaN = NaN"
| "fl_mul (Fin x) (Fin y) = Fin (x * y)"
| "fl_mul PInf (Fin y) = (if y = 0 then NaN else if 0 < y then PInf else NInf)"
| "fl_mul NInf (Fin y) = (if y = 0 then NaN else if 0 < y then NInf else PInf)"
| "fl_mul (Fin x) PInf = (if x = 0 then NaN else if 0 < x then PInf else NInf)"
| "fl_mul (Fin x) NInf = (if x = 0 then NaN else if 0 < x then NInf else PInf)"
| "fl_mul PInf PInf = PInf"
| "fl_mul NInf NInf = PInf"
| "fl_mul PInf NInf = NInf"
| "fl_mul NInf PInf = NInf"

fun fl_div :: "fl \<Rightarrow> fl \<Rightarrow> fl" where
  "fl_div NaN b = NaN"
| "fl_div a NaN = NaN"
| "fl_div (Fin x) (Fin y) =
     (if y = 0 then (if x = 0 then NaN else if 0 < x then PInf else NInf)
      else Fin (x / y))"
| "fl_div (Fin x) b = Fin 0"
| "fl_div PInf (Fin y) = (if 0 \<le> y then PInf else NInf)"
| "fl_div NInf (Fin y) = (if 0 \<le> y then NInf else PInf)"
| "fl_div a b = NaN"

text \<open>Comparisons: every comparison with \<open>NaN\<close> is false, except \<^verbatim>\<open>not_equal\<close>.\<close>

fun fl_less :: "fl \<Rightarrow> fl \<Rightarrow> bool" where
  "fl_less NaN b = False"
| "fl_less a NaN = False"
| "fl_less (Fin x) (Fin y) = (x < y)"
| "fl_less a NInf = False"
| "fl_less PInf b = False"
| "fl_less a b = True"

fun fl_equal :: "fl \<Rightarrow> fl \<Rightarrow> bool" where
  "fl_equal NaN b = False"
| "fl_equal a NaN = False"
| "fl_equal a b = (a = b)"

definition fl_less_equal :: "fl \<Rightarrow> fl \<Rightarrow> bool" where
  "fl_less_equal a b = (fl_less a b \<or> fl_equal a b)"

definition fl_greater :: "fl \<Rightarrow> fl \<Rightarrow> bool" where
  "fl_greater a b = fl_less b a"

definition fl_not_equal :: "fl \<Rightarrow> fl \<Rightarrow> bool" where
  "fl_not_equal a b = (\<not> fl_equal a b)"

text \<open>\<^verbatim>\<open>K.maximum\<close> and \<^verbatim>\<open>K.minimum\<close>, elementwise; a \<open>NaN\<close> operand gives \<open>NaN\<close>.\<close>

fun fl_maximum :: "fl \<Rightarrow> fl \<Rightarrow> fl" where
  "fl_maximum NaN b = NaN"
| "fl_maximum a NaN = NaN"
| "fl_maximum a b = (if fl_less a b then b else a)"

fun fl_minimum :: "fl \<Rightarrow> fl \<Rightarrow> fl" where
  "fl_minimum NaN b = NaN"
| "fl_minimum a NaN = NaN"
| "fl_minimum a b = (if fl_less b a then b else a)"

fun fl_abs :: "fl \<Rightarrow> fl" where
  "fl_abs (Fin x) = Fin \<bar>x\<bar>"
| "fl_abs PInf = PInf"
| "fl_abs NInf = PInf"
| "fl_abs NaN = NaN"

text \<open>\<^verbatim>\<open>K.log\<close>: the logarithm of zero is minus infinity, of a negative number \<open>NaN\<close>.\<close>

fun fl_log :: "fl \<Rightarrow> fl" where
  "fl_log (Fin x) = (if 0 < x then Fin (ln x) else if x = 0 then NInf else NaN)"
| "fl_log PInf = PInf"
| "fl_log NInf = NaN"
| "fl_log NaN = NaN"

text \<open>\<^verbatim>\<open>K.sum\<close> over all elements of a tensor, given as the list of its elements.\<close>

definition fl_sum :: "fl list \<Rightarrow> fl" where
  "fl_sum xs = foldl fl_add (Fin 0) xs"

section \<open>Boxes and matrices\<close>

text \<open>
  A tensor of shape \<open>(n, 4)\<close> is a list of rows \<open>(x1, y1, x2, y2)\<close>; the four columns are
  what \<^verbatim>\<open>K.tf.split(boxes, 4, axis=1)\<close> returns. A tensor of shape \<open>(m, n)\<close> keeps its
  number of columns beside its rows, since \<open>m\<close> can be zero while \<open>n\<close> is not.
\<close>

type_synonym box = "fl \<times> fl \<times> fl \<times> fl"

record mat =
  ncols :: nat
  rws :: "fl list list"

section \<open>Geometric overlap\<close>

text \<open>
  \<^verbatim>\<open>bbox_overlap_iou\<close>, lines 87 to 103. The source broadcasts a column of \<^verbatim>\<open>bboxes1\<close>
  against a transposed column of \<^verbatim>\<open>bboxes2\<close>; \<open>iou_entry a b\<close> is the element that the
  broadcast computes for row \<open>a\<close> of \<^verbatim>\<open>bboxes1\<close> and row \<open>b\<close> of \<^verbatim>\<open>bboxes2\<close>.
\<close>

definition iou_entry :: "box \<Rightarrow> box \<Rightarrow> fl" where
  "iou_entry a b =
     (case a of (x11, y11, x12, y12) \<Rightarrow>
      case b of (x21, y21, x22, y22) \<Rightarrow>
        let xI1 = fl_maximum x11 x21;
            yI1 = fl_maximum y11 y21;
            xI2 = fl_minimum x12 x22;
            yI2 = fl_minimum y12 y22;
            inter_area = fl_mul (fl_add (fl_sub xI2 xI1) (Fin 1)) (fl_add (fl_sub yI2 yI1) (Fin 1));
            bboxes1_area = fl_mul (fl_add (fl_sub x12 x11) (Fin 1)) (fl_add (fl_sub y12 y11) (Fin 1));
            bboxes2_area = fl_mul (fl_add (fl_sub x22 x21) (Fin 1)) (fl_add (fl_sub y22 y21) (Fin 1));
            union = fl_sub (fl_add bboxes1_area bboxes2_area) inter_area
        in fl_maximum (fl_div inter_area union) (Fin 0))"

definition bbox_overlap_iou :: "box list \<Rightarrow> box list \<Rightarrow> mat" where
  "bbox_overlap_iou bboxes1 bboxes2 =
     \<lparr>ncols = length bboxes2,
      rws = map (\<lambda>a. map (\<lambda>b. iou_entry a b) bboxes2) bboxes1\<rparr>"

text \<open>\<^verbatim>\<open>bbox_iog\<close>, lines 106 to 120: the same intersection over the area of the second box.\<close>

definition iog_entry :: "box \<Rightarrow> box \<Rightarrow> fl" where
  "iog_entry a b =
     (case a of (x11, y11, x12, y12) \<Rightarrow>
      case b of (x21, y21, x22, y22) \<Rightarrow>
        let xI1 = fl_maximum x11 x21;
            yI1 = fl_maximum y11 y21;
            xI2 = fl_minimum x12 x22;
            yI2 = fl_minimum y12 y22;
            intersect_area = fl_mul (fl_add (fl_sub xI2 xI1) (Fin 1)) (fl_add (fl_sub yI2 yI1) (Fin 1));
            gt_area = fl_mul (fl_add (fl_sub x22 x21) (Fin 1)) (fl_add (fl_sub y22 y21) (Fin 1))
        in fl_maximum (fl_div intersect_area gt_area) (Fin 0))"

definition bbox_iog :: "box list \<Rightarrow> box list \<Rightarrow> mat" where
  "bbox_iog predicted ground_truth =
     \<lparr>ncols = length ground_truth,
      rws = map (\<lambda>a. map (\<lambda>b. iog_entry a b) ground_truth) predicted\<rparr>"

section \<open>Geometric overlap in float32\<close>

text \<open>
  \<^verbatim>\<open>K.floatx()\<close> is \<^verbatim>\<open>float32\<close> unless Keras is configured otherwise. Whether a result
  is exactly \<open>1.0\<close> depends on rounding and overflow, so lines 87 to 103 are given a
  second time with every arithmetic result rounded to float32: round to nearest, ties to
  even, 24 significant bits, exponents from \<open>-126\<close> (subnormal numbers below) to 127,
  and infinity from \<open>2 ** 128\<close> on. The sign of zero is still left out.
\<close>

definition float32_exponent :: "real \<Rightarrow> int" where
  "float32_exponent x = max \<lfloor>log 2 \<bar>x\<bar>\<rfloor> (- 126)"

definition float32_ulp :: "real \<Rightarrow> real" where
  "float32_ulp x = 2 powr of_int (float32_exponent x - 23)"

definition round_half_even :: "real \<Rightarrow> int" where
  "round_half_even q =
     (let f = \<lfloor>q\<rfloor>; d = q - of_int f
      in if d < 1 / 2 then f else if 1 / 2 < d then f + 1 else if even f then f else f + 1)"

definition float32_round :: "real \<Rightarrow> fl" where
  "float32_round x =
     (if x = 0 then Fin 0
      else
        let r = of_int (round_half_even (x / float32_ulp x)) * float32_ulp x
        in if 2 ^ 128 \<le> \<bar>r\<bar> then (if 0 < x then PInf else NInf) else Fin r)"

text \<open>The rounding applied to the exact result of one operation.\<close>

definition f32 :: "fl \<Rightarrow> fl" where
  "f32 v = (case v of Fin r \<Rightarrow> float32_round r | _ \<Rightarrow> v)"

definition f32_add :: "fl \<Rightarrow> fl \<Rightarrow> fl" where
  "f32_add a b = f32 (fl_add a b)"

definition f32_sub :: "fl \<Rightarrow> fl \<Rightarrow> fl" where
  "f32_sub a b = f32 (fl_sub a b)"

definition f32_mul :: "fl \<Rightarrow> fl \<Rightarrow> fl" where
  "f32_mul a b = f32 (fl_mul a b)"

definition f32_div :: "fl \<Rightarrow> fl \<Rightarrow> fl" where
  "f32_div a b = f32 (fl_div a b)"

text \<open>\<^verbatim>\<open>bbox_overlap_iou\<close>, lines 87 to 103, in float32.\<close>

definition iou_entry_float32 :: "box \<Rightarrow> box \<Rightarrow> fl" where
  "iou_entry_float32 a b =
     (case a of (x11, y11, x12, y12) \<Rightarrow>
      case b of (x21, y21, x22, y22) \<Rightarrow>
        let xI1 = fl_maximum x11 x21;
            yI1 = fl_maximum y11 y21;
            xI2 = fl_minimum x12 x22;
            yI2 = fl_minimum y12 y22;
            inter_area = f32_mul (f32_add (f32_sub xI2 xI1) (Fin 1))
                           (f32_add (f32_sub yI2 yI1) (Fin 1));
            bboxes1_area = f32_mul (f32_add (f32_sub x12 x11) (Fin 1))
                             (f32_add (f32_sub y12 y11) (Fin 1));
            bboxes2_area = f32_mul (f32_add (f32_sub x22 x21) (Fin 1))
                             (f32_add (f32_sub y22 y21) (Fin 1));
            union = f32_sub (f32_add bboxes1_area bboxes2_area) inter_area
        in fl_maximum (f32_div inter_area union) (Fin 0))"

definition bbox_overlap_iou_float32 :: "box list \<Rightarrow> box list \<Rightarrow> mat" where
  "bbox_overlap_iou_float32 bboxes1 bboxes2 =
     \<lparr>ncols = length bboxes2,
      rws = map (\<lambda>a. map (\<lambda>b. iou_entry_float32 a b) bboxes2) bboxes1\<rparr>"

section \<open>Errors\<close>

text \<open>
  \<open>ZeroDivisionError\<close> is Python's, raised by a division of Python floats.
  \<open>InvalidArgument\<close> is the framework's error for an index out of range, an empty
  reduction axis or operands whose shapes do not fit. \<open>UnspecifiedCast\<close> marks a cast
  to \<^verbatim>\<open>int32\<close> of a value that is not a number or not in range: the framework does not
  say what it returns.
\<close>

datatype error = ZeroDivisionError | InvalidArgument | UnspecifiedCast

definition ebind :: "error + 'a \<Rightarrow> ('a \<Rightarrow> error + 'b) \<Rightarrow> error + 'b" where
  "ebind m f = (case m of Inl e \<Rightarrow> Inl e | Inr x \<Rightarrow> f x)"

fun emap :: "('a \<Rightarrow> error + 'b) \<Rightarrow> 'a list \<Rightarrow> error + 'b list" where
  "emap f [] = Inr []"
| "emap f (x # xs) = ebind (f x) (\<lambda>y. ebind (emap f xs) (\<lambda>ys. Inr (y # ys)))"

section \<open>Masked reduction primitives\<close>

text \<open>
  Modelled from the spec: the module \<^verbatim>\<open>backend\<close> (\<^verbatim>\<open>backend.where\<close>,
  \<^verbatim>\<open>backend.gather_nd\<close>) is not among the sources; section 4.2 of the specification
  gives \<^verbatim>\<open>nonzero_indices\<close> (the indices where a predicate holds, in order),
  \<^verbatim>\<open>gather_by_index\<close> (the elements at given indices) and \<^verbatim>\<open>select\<close> (an elementwise
  choice, written \<open>if\<close> here).
\<close>

definition where_indices :: "bool list \<Rightarrow> nat list" where
  "where_indices bs = map fst (filter snd (enumerate 0 bs))"

definition where_indices2 :: "bool list list \<Rightarrow> (nat \<times> nat) list" where
  "where_indices2 bss =
     concat (map (\<lambda>(b, bs). map (\<lambda>n. (b, n)) (where_indices bs)) (enumerate 0 bss))"

definition gather :: "'a list \<Rightarrow> nat \<Rightarrow> error + 'a" where
  "gather xs i = (if i < length xs then Inr (xs ! i) else Inl InvalidArgument)"

definition gather2 :: "'a list list \<Rightarrow> nat \<times> nat \<Rightarrow> error + 'a" where
  "gather2 xss p = (case p of (b, n) \<Rightarrow> ebind (gather xss b) (\<lambda>xs. gather xs n))"

definition gather_nd :: "'a list \<Rightarrow> nat list \<Rightarrow> error + 'a list" where
  "gather_nd xs indices = emap (gather xs) indices"

definition gather_nd2 :: "'a list list \<Rightarrow> (nat \<times> nat) list \<Rightarrow> error + 'a list" where
  "gather_nd2 xss indices = emap (gather2 xss) indices"

section \<open>Focal classification loss\<close>

text \<open>
  \<^verbatim>\<open>_focal\<close>, lines 32 to 66, as the functor \<^verbatim>\<open>focal(alpha, gamma)\<close> returns it.
  \<^verbatim>\<open>y_true\<close> has shape \<open>(B, N, C + 1)\<close> and \<^verbatim>\<open>y_pred\<close> shape \<open>(B, N, C)\<close>: a list (the
  batch) of lists (the anchors) of rows. The power \<^verbatim>\<open>**\<close> and
  \<^verbatim>\<open>keras.backend.binary_crossentropy\<close> belong to the framework and are parameters.
\<close>

text \<open>Line 49: the indices of the anchors whose state is not \<open>-1\<close>.\<close>

definition focal_indices :: "fl list list list \<Rightarrow> (nat \<times> nat) list" where
  "focal_indices y_true =
     (let anchor_state = map (map last) y_true
      in where_indices2 (map (map (\<lambda>s. fl_not_equal s (Fin (- 1)))) anchor_state))"

text \<open>Lines 62 to 64: the number of anchors whose state is \<open>1\<close>, at least \<open>1.0\<close>.\<close>

definition focal_normalizer :: "fl list list list \<Rightarrow> fl" where
  "focal_normalizer y_true =
     (let anchor_state = map (map last) y_true;
          normalizer = where_indices2 (map (map (\<lambda>s. fl_equal s (Fin 1))) anchor_state);
          normalizer = Fin (real (length normalizer))
      in fl_maximum (Fin 1) normalizer)"

text \<open>Lines 54 to 59 on one element of the gathered labels and classification.\<close>

definition focal_element ::
  "(fl \<Rightarrow> real \<Rightarrow> fl) \<Rightarrow> (fl \<Rightarrow> fl \<Rightarrow> fl) \<Rightarrow> real \<Rightarrow> real \<Rightarrow> fl \<Rightarrow> fl \<Rightarrow> fl" where
  "focal_element pow binary_crossentropy alpha gamma label classification =
     (let alpha_factor = fl_mul (Fin 1) (Fin alpha);
          alpha_factor = (if fl_equal label (Fin 1) then alpha_factor
                          else fl_sub (Fin 1) alpha_factor);
          focal_weight = (if fl_equal label (Fin 1) then fl_sub (Fin 1) classification
                          else classification);
          focal_weight = fl_mul alpha_factor (pow focal_weight gamma)
      in fl_mul focal_weight (binary_crossentropy label classification))"

text \<open>
  The elementwise operations of lines 55 to 59 need gathered labels and classification
  of one shape. Operands that do not have the shapes of the docstring are rejected on
  entry.
\<close>

definition focal ::
  "(fl \<Rightarrow> real \<Rightarrow> fl) \<Rightarrow> (fl \<Rightarrow> fl \<Rightarrow> fl) \<Rightarrow> real \<Rightarrow> real \<Rightarrow>
   fl list list list \<Rightarrow> fl list list list \<Rightarrow> error + fl" where
  "focal pow binary_crossentropy alpha gamma y_true y_pred =
     (if \<not> list_all2 (list_all2 (\<lambda>t p. length t = Suc (length p))) y_true y_pred
      then Inl InvalidArgument
      else
        let labels = map (map butlast) y_true;
            classification = y_pred;
            indices = focal_indices y_true
        in ebind (gather_nd2 labels indices) (\<lambda>labels.
           ebind (gather_nd2 classification indices) (\<lambda>classification.
             let cls_loss =
                   map (\<lambda>(ls, cs).
                       map (\<lambda>(l, c). focal_element pow binary_crossentropy alpha gamma l c)
                         (zip ls cs))
                     (zip labels classification);
                 normalizer = focal_normalizer y_true
             in Inr (fl_div (fl_sum (concat cls_loss)) normalizer))))"

section \<open>Smooth distances\<close>

text \<open>
  \<^verbatim>\<open>smooth_l1_distance\<close>, lines 123 to 137. The two branches of the
  \<^verbatim>\<open>backend.where\<close> are named; \<open>regression_diff\<close> is the absolute difference.
\<close>

definition smooth_l1_quadratic :: "real \<Rightarrow> fl \<Rightarrow> fl" where
  "smooth_l1_quadratic sigma_squared regression_diff =
     fl_mul (Fin (0.5 * sigma_squared)) (fl_mul regression_diff regression_diff)"

definition smooth_l1_linear :: "real \<Rightarrow> fl \<Rightarrow> fl" where
  "smooth_l1_linear sigma_squared regression_diff =
     fl_sub regression_diff (Fin (0.5 / sigma_squared))"

definition smooth_l1_where :: "real \<Rightarrow> fl \<Rightarrow> fl" where
  "smooth_l1_where sigma_squared regression_diff =
     (if fl_less regression_diff (Fin (1.0 / sigma_squared))
      then smooth_l1_quadratic sigma_squared regression_diff
      else smooth_l1_linear sigma_squared regression_diff)"

definition box_row :: "box \<Rightarrow> fl list" where
  "box_row b = (case b of (x1, y1, x2, y2) \<Rightarrow> [x1, y1, x2, y2])"

text \<open>Two tensors of shapes \<open>(m, 4)\<close> and \<open>(n, 4)\<close> broadcast when \<open>m = n\<close> or one is 1.\<close>

definition broadcast_rows :: "'a list \<Rightarrow> 'a list \<Rightarrow> error + ('a \<times> 'a) list" where
  "broadcast_rows xs ys =
     (if length xs = length ys then Inr (zip xs ys)
      else case xs of [x] \<Rightarrow> Inr (map (\<lambda>y. (x, y)) ys)
      | _ \<Rightarrow> (case ys of [y] \<Rightarrow> Inr (map (\<lambda>x. (x, y)) xs) | _ \<Rightarrow> Inl InvalidArgument))"

definition smooth_l1_distance :: "box list \<Rightarrow> box list \<Rightarrow> real \<Rightarrow> error + fl list list" where
  "smooth_l1_distance y_true y_pred delta =
     (let sigma_squared = delta ^ 2
      in ebind (broadcast_rows y_pred y_true) (\<lambda>pairs.
           if sigma_squared = 0 then Inl ZeroDivisionError
           else Inr (map (\<lambda>(p, t).
                      map (\<lambda>(a, b). smooth_l1_where sigma_squared (fl_abs (fl_sub a b)))
                        (zip (box_row p) (box_row t)))
                    pairs)))"

text \<open>\<^verbatim>\<open>smooth_ln\<close>, lines 140 to 144, on one element of \<open>x\<close>.\<close>

definition smooth_ln :: "fl \<Rightarrow> real \<Rightarrow> fl" where
  "smooth_ln x delta =
     (let cond = fl_less_equal x (Fin delta);
          true_fn = fl_neg (fl_log (fl_sub (Fin 1) x));
          false_fn = fl_sub (fl_div (fl_sub x (Fin delta)) (Fin (1 - delta)))
                       (fl_log (Fin (1 - delta)))
      in if cond then true_fn else false_fn)"

section \<open>Repulsion regression loss\<close>

text \<open>
  \<^verbatim>\<open>K.argmax\<close> along a row: the first index of a greatest element. \<open>best\<close> keeps the
  leftmost candidate unless a later one is strictly greater.
\<close>

fun best :: "nat \<times> fl \<Rightarrow> (nat \<times> fl) list \<Rightarrow> nat" where
  "best (bi, bv) [] = bi"
| "best (bi, bv) ((i, x) # ps) = (if fl_less bv x then best (i, x) ps else best (bi, bv) ps)"

definition argmax_indexed :: "(nat \<times> fl) list \<Rightarrow> error + nat" where
  "argmax_indexed ps = (case ps of [] \<Rightarrow> Inl InvalidArgument | p # rest \<Rightarrow> Inr (best p rest))"

definition argmax :: "fl list \<Rightarrow> error + nat" where
  "argmax xs = argmax_indexed (enumerate 0 xs)"

text \<open>
  \<^verbatim>\<open>K.tf.nn.top_k(row, k=2)\<close> followed by \<^verbatim>\<open>[:, 1]\<close>: the index of the second entry
  in descending order, the lower index first among equals. It needs two columns.
\<close>

definition top_k2_second :: "fl list \<Rightarrow> error + nat" where
  "top_k2_second xs =
     ebind (argmax xs) (\<lambda>i1. argmax_indexed (filter (\<lambda>(i, x). i \<noteq> i1) (enumerate 0 xs)))"

text \<open>
  \<^verbatim>\<open>attraction_term\<close>, lines 147 to 154. \<^verbatim>\<open>K.argmax\<close> along an axis of length 0
  is an error; \<open>delta\<close> has its default value \<open>3.\<close>.
\<close>

definition attraction_term :: "box list \<Rightarrow> box list \<Rightarrow> mat \<Rightarrow> error + fl" where
  "attraction_term y_true y_pred iou_over_predicted =
     (if ncols iou_over_predicted = 0 then Inl InvalidArgument
      else
        ebind (emap argmax (rws iou_over_predicted)) (\<lambda>indices_highest_iou.
        ebind (emap (gather y_true) indices_highest_iou) (\<lambda>gt_highest_iou.
        ebind (smooth_l1_distance y_pred gt_highest_iou 3) (\<lambda>d.
          Inr (fl_div (fl_sum (concat d)) (Fin (real (length y_pred))))))))"

text \<open>\<^verbatim>\<open>repulsion_term_gt\<close>, lines 157 to 175, with its two branches.\<close>

definition two_prediction_exists :: "box list \<Rightarrow> box list \<Rightarrow> mat \<Rightarrow> real \<Rightarrow> error + fl" where
  "two_prediction_exists y_true y_pred iou_over_predicted alpha =
     ebind (emap top_k2_second (rws iou_over_predicted)) (\<lambda>indices_2highest_iou.
     ebind (emap (gather y_true) indices_2highest_iou) (\<lambda>gt_2highest_iou.
       if length y_pred \<noteq> length gt_2highest_iou then Inl InvalidArgument
       else
         let iog = map (\<lambda>(p, g). rws (bbox_iog [p] [g])) (zip y_pred gt_2highest_iou);
             iog = map concat iog
         in Inr (fl_div (fl_sum (map (\<lambda>x. smooth_ln x alpha) (concat iog)))
                   (Fin (real (length y_pred))))))"

definition predictions_empty :: "error + fl" where
  "predictions_empty = Inr (Fin 0.0)"

definition repulsion_term_gt :: "box list \<Rightarrow> box list \<Rightarrow> mat \<Rightarrow> real \<Rightarrow> error + fl" where
  "repulsion_term_gt y_true y_pred iou_over_predicted alpha =
     (if 1 < ncols iou_over_predicted
      then two_prediction_exists y_true y_pred iou_over_predicted alpha
      else predictions_empty)"

text \<open>
  \<^verbatim>\<open>regression_loss_one\<close>, lines 186 to 216, in three steps. The target of one image
  has four columns; its row 0 is \<open>(image_w, image_h, annotations_len, _)\<close>.
\<close>

text \<open>
  \<^verbatim>\<open>K.tf.cast(annotations_len[0], K.tf.int32)\<close> drops the fraction. A Python slice
  \<^verbatim>\<open>xs[start:stop]\<close> counts a negative bound from the end and clips both bounds.
\<close>

definition cast_int32 :: "fl \<Rightarrow> error + int" where
  "cast_int32 v =
     (case v of
        Fin x \<Rightarrow>
          (let t = (if 0 \<le> x then \<lfloor>x\<rfloor> else \<lceil>x\<rceil>)
           in if - (2 ^ 31) \<le> t \<and> t < 2 ^ 31 then Inr t else Inl UnspecifiedCast)
      | _ \<Rightarrow> Inl UnspecifiedCast)"

definition slice :: "int \<Rightarrow> int \<Rightarrow> 'a list \<Rightarrow> 'a list" where
  "slice start stop xs =
     (let n = int (length xs);
          b = (if start < 0 then max (start + n) 0 else min start n);
          e = (if stop < 0 then max (stop + n) 0 else min stop n)
      in take (nat (e - b)) (drop (nat b) xs))"

text \<open>Lines 189 to 191: the metadata of row 0 and the rows taken as ground truth.\<close>

definition target_rows :: "box list \<Rightarrow> error + (fl \<times> fl \<times> box list)" where
  "target_rows y_true =
     (case y_true of
        [] \<Rightarrow> Inl InvalidArgument
      | (image_w, image_h, annotations_len, _) # _ \<Rightarrow>
          ebind (cast_int32 annotations_len) (\<lambda>annotations_len.
            Inr (image_w, image_h, slice 1 annotations_len y_true)))"

text \<open>Lines 194 and 195: every box divided by \<open>[image_w, image_h, image_w, image_h]\<close>.\<close>

definition normalize_box :: "fl \<Rightarrow> fl \<Rightarrow> box \<Rightarrow> box" where
  "normalize_box image_w image_h b =
     (case b of (x1, y1, x2, y2) \<Rightarrow>
        (fl_div x1 image_w, fl_div y1 image_h, fl_div x2 image_w, fl_div y2 image_h))"

text \<open>\<^verbatim>\<open>K.max(m, axis=1)\<close> on one row; the greatest element of no element is \<open>-inf\<close>.\<close>

definition reduce_max :: "fl list \<Rightarrow> fl" where
  "reduce_max xs = foldl fl_maximum NInf xs"

text \<open>
  Lines 197 to 202, on normalised boxes: the predictions whose highest overlap is above
  \<open>0.5\<close>, and their rows of the overlap matrix.
\<close>

definition filter_predictions :: "box list \<Rightarrow> box list \<Rightarrow> error + (box list \<times> mat)" where
  "filter_predictions y_true y_pred =
     (let iou_over_predicted = bbox_overlap_iou y_pred y_true;
          highest_iou = map reduce_max (rws iou_over_predicted);
          iou_gt_05 = where_indices (map (\<lambda>h. fl_greater h (Fin 0.5)) highest_iou)
      in ebind (gather_nd y_pred iou_gt_05) (\<lambda>y_pred.
         ebind (gather_nd (rws iou_over_predicted) iou_gt_05) (\<lambda>kept.
           Inr (y_pred, \<lparr>ncols = ncols iou_over_predicted, rws = kept\<rparr>))))"

text \<open>Lines 204 to 216: the guard \<^verbatim>\<open>has_data\<close> and the sum of the two terms.\<close>

definition has_data :: "box list \<Rightarrow> mat \<Rightarrow> bool" where
  "has_data y_true iou_over_predicted =
     ((0 < length (rws iou_over_predicted) \<and> 0 < ncols iou_over_predicted)
      \<and> 0 < length y_true)"

definition loss_terms :: "box list \<Rightarrow> box list \<Rightarrow> mat \<Rightarrow> error + fl" where
  "loss_terms y_true y_pred iou_over_predicted =
     (let alpha = 0.5
      in if has_data y_true iou_over_predicted
         then ebind (attraction_term y_true y_pred iou_over_predicted) (\<lambda>a.
              ebind (repulsion_term_gt y_true y_pred iou_over_predicted alpha) (\<lambda>r.
                Inr (fl_sum [a, r])))
         else Inr (Fin 0.0))"

definition regression_loss_one :: "box list \<Rightarrow> box list \<Rightarrow> error + fl" where
  "regression_loss_one y_true y_pred =
     ebind (target_rows y_true) (\<lambda>(image_w, image_h, rows).
       let y_true = map (normalize_box image_w image_h) rows;
           y_pred = map (normalize_box image_w image_h) y_pred
       in ebind (filter_predictions y_true y_pred) (\<lambda>(y_pred, iou_over_predicted).
            loss_terms y_true y_pred iou_over_predicted))"

text \<open>\<^verbatim>\<open>repulsion_loss\<close>, lines 219 to 221: one loss per image of the batch.\<close>

definition repulsion_loss :: "box list list \<Rightarrow> box list list \<Rightarrow> error + fl list" where
  "repulsion_loss y_true y_pred =
     (if length y_true \<noteq> length y_pred then Inl InvalidArgument
      else emap (\<lambda>x. regression_loss_one (fst x) (snd x)) (zip y_true y_pred))"

section \<open>Properties of the overlap\<close>

lemma fl_maximum_commute: "fl_maximum a b = fl_maximum b a"
  by (cases a; cases b) auto

lemma fl_minimum_commute: "fl_minimum a b = fl_minimum b a"
  by (cases a; cases b) auto

lemma fl_add_commute: "fl_add a b = fl_add b a"
  by (cases a; cases b) auto

lemma iou_entry_commute: "iou_entry a b = iou_entry b a"
proof -
  obtain x11 y11 x12 y12 where a: "a = (x11, y11, x12, y12)"
    by (cases a) auto
  obtain x21 y21 x22 y22 where b: "b = (x21, y21, x22, y22)"
    by (cases b) auto
  show ?thesis
    unfolding a b iou_entry_def Let_def prod.case
    by (simp only: fl_maximum_commute [of x21 x11] fl_maximum_commute [of y21 y11]
        fl_minimum_commute [of x22 x12] fl_minimum_commute [of y22 y12]
        fl_add_commute [of "fl_mul (fl_add (fl_sub x22 x21) (Fin 1)) (fl_add (fl_sub y22 y21) (Fin 1))"])
qed

lemma iou_entry_self:
  assumes "0 < x2 - x1 + 1" and "0 < y2 - y1 + 1"
  shows "iou_entry (Fin x1, Fin y1, Fin x2, Fin y2) (Fin x1, Fin y1, Fin x2, Fin y2) = Fin 1"
proof -
  let ?w = "x2 - x1 + 1" and ?h = "y2 - y1 + 1"
  have pos: "0 < ?w * ?h"
    using assms by (rule mult_pos_pos)
  have u: "?w * ?h + ?w * ?h - ?w * ?h = ?w * ?h"
    by simp
  show ?thesis
    using pos assms by (simp add: iou_entry_def fl_sub_def u)
qed

lemma fl_maximum_zero_not_negative: "\<not> fl_less (fl_maximum v (Fin 0)) (Fin 0)"
  by (cases v) auto

lemma iou_entry_not_negative: "\<not> fl_less (iou_entry a b) (Fin 0)"
  by (cases a; cases b) (simp add: iou_entry_def Let_def fl_maximum_zero_not_negative)

lemma round_half_even_of_int: "round_half_even (of_int z) = z"
  by (simp add: round_half_even_def)

lemma round_half_even_bounds: "\<lfloor>q\<rfloor> \<le> round_half_even q \<and> round_half_even q \<le> \<lceil>q\<rceil>"
proof -
  have "\<lfloor>q\<rfloor> + 1 \<le> \<lceil>q\<rceil>" if "0 < q - of_int \<lfloor>q\<rfloor>"
    using that by linarith
  then show ?thesis
    by (auto simp: round_half_even_def Let_def)
qed

lemma float32_ulp_pos: "0 < float32_ulp x"
  by (simp add: float32_ulp_def)

lemma float32_exponent_le:
  assumes "x \<noteq> 0" and "\<bar>x\<bar> < 2 powr of_int (k + 1)" and "- 126 \<le> k"
  shows "float32_exponent x \<le> k"
proof -
  have "log 2 \<bar>x\<bar> < of_int (k + 1)"
    using assms(1,2) by (simp add: log_less_iff)
  then have "\<lfloor>log 2 \<bar>x\<bar>\<rfloor> \<le> k"
    by (simp add: floor_le_iff)
  with assms(3) show ?thesis
    by (simp add: float32_exponent_def)
qed

lemma float32_round_representable:
  assumes x: "x = of_int m * 2 powr of_int (k - 23)"
    and m: "\<bar>m\<bar> < 2 ^ 24" and k: "- 126 \<le> k" "k \<le> 127"
  shows "float32_round x = Fin x"
proof (cases "x = 0")
  case True
  then show ?thesis by (simp add: float32_round_def)
next
  case False
  have "\<bar>x\<bar> = of_int \<bar>m\<bar> * 2 powr of_int (k - 23)"
    by (simp add: x abs_mult)
  also have "\<dots> < 2 ^ 24 * 2 powr of_int (k - 23)"
  proof -
    have "(of_int \<bar>m\<bar> :: real) < of_int (2 ^ 24)"
      using m by (simp only: of_int_less_iff)
    then show ?thesis by simp
  qed
  also have "\<dots> = 2 powr of_int (k + 1)"
  proof -
    have "(2::real) ^ 24 = 2 powr real 24"
      by (rule powr_realpow [symmetric]) simp
    then have "(2::real) ^ 24 * 2 powr of_int (k - 23) = 2 powr (real 24 + of_int (k - 23))"
      by (simp only: powr_add)
    also have "real 24 + real_of_int (k - 23) = of_int (k + 1)"
      by simp
    finally show ?thesis .
  qed
  finally have lt: "\<bar>x\<bar> < 2 powr of_int (k + 1)" .
  define e where "e = float32_exponent x"
  have e: "e \<le> k"
    unfolding e_def using False lt k(1) by (rule float32_exponent_le)
  define j where "j = nat (k - e)"
  have kj: "k - 23 = (e - 23) + int j"
    using e by (simp add: j_def)
  have p: "(2::real) powr of_int (k - 23) = 2 powr of_int (e - 23) * 2 ^ j"
    unfolding kj by (simp add: powr_add powr_realpow)
  have u: "float32_ulp x = 2 powr of_int (e - 23)"
    by (simp add: float32_ulp_def e_def)
  have "of_int m * 2 powr of_int (k - 23) = of_int (m * 2 ^ j) * (2::real) powr of_int (e - 23)"
    unfolding p by simp
  then have xe: "x = of_int (m * 2 ^ j) * float32_ulp x"
    unfolding u using x by simp
  have "x / float32_ulp x = of_int (m * 2 ^ j) * float32_ulp x / float32_ulp x"
    using xe by simp
  then have q: "x / float32_ulp x = of_int (m * 2 ^ j)"
    using float32_ulp_pos [of x] by simp
  have r: "of_int (round_half_even (x / float32_ulp x)) * float32_ulp x = x"
    unfolding q round_half_even_of_int using xe by simp
  have "real_of_int (k + 1) \<le> real 128"
    using k(2) by simp
  then have "2 powr of_int (k + 1) \<le> (2::real) powr real 128"
    by (rule powr_mono) simp
  also have "(2::real) powr real 128 = 2 ^ 128"
    by (rule powr_realpow) simp
  finally have "\<bar>x\<bar> < 2 ^ 128"
    using lt by simp
  then show ?thesis
    using False by (simp add: float32_round_def Let_def r)
qed


lemma round_half_even_abs_le:
  assumes "\<bar>q\<bar> \<le> of_int B"
  shows "\<bar>round_half_even q\<bar> \<le> B"
proof -
  have "- B \<le> \<lfloor>q\<rfloor>" and "\<lceil>q\<rceil> \<le> B"
    using assms by (simp_all add: le_floor_iff ceiling_le_iff abs_le_iff)
  with round_half_even_bounds [of q] show ?thesis
    by linarith
qed

lemma round_half_even_abs_ge:
  assumes "of_int B \<le> \<bar>q\<bar>"
  shows "B \<le> \<bar>round_half_even q\<bar>"
proof (cases "0 \<le> q")
  case True
  with assms have "B \<le> \<lfloor>q\<rfloor>"
    by (simp add: le_floor_iff)
  with round_half_even_bounds [of q] show ?thesis
    by linarith
next
  case False
  with assms have "of_int B \<le> - q"
    by simp
  then have "q \<le> of_int (- B)"
    by simp
  then have "\<lceil>q\<rceil> \<le> - B"
    by (simp only: ceiling_le_iff)
  with round_half_even_bounds [of q] show ?thesis
    by linarith
qed

lemma float32_ulp_scaled:
  "float32_ulp x * 2 ^ n = 2 powr of_int (float32_exponent x - 23 + int n)"
  by (simp add: float32_ulp_def powr_add powr_realpow)

lemma float32_quotient_less:
  assumes "x \<noteq> 0"
  shows "\<bar>x / float32_ulp x\<bar> < 2 ^ 24"
proof -
  define e' where "e' = \<lfloor>log 2 \<bar>x\<bar>\<rfloor>"
  have "2 powr of_int e' \<le> \<bar>x\<bar> \<and> \<bar>x\<bar> < 2 powr of_int (e' + 1)"
    using assms floor_log_eq_powr_iff [of "\<bar>x\<bar>" 2 e'] by (simp add: e'_def)
  then have "\<bar>x\<bar> < 2 powr of_int (e' + 1)"
    by simp
  also have "\<dots> \<le> 2 powr of_int (float32_exponent x - 23 + int 24)"
    by (rule powr_mono) (simp_all add: float32_exponent_def e'_def)
  also have "\<dots> = float32_ulp x * 2 ^ 24"
    by (simp only: float32_ulp_scaled)
  finally have "\<bar>x\<bar> / float32_ulp x < 2 ^ 24"
    using float32_ulp_pos [of x] by (simp add: pos_divide_less_eq mult.commute)
  then show ?thesis
    using float32_ulp_pos [of x] by (simp add: abs_divide)
qed

lemma float32_quotient_ge:
  assumes "x \<noteq> 0" and "- 126 \<le> \<lfloor>log 2 \<bar>x\<bar>\<rfloor>"
  shows "2 ^ 23 \<le> \<bar>x / float32_ulp x\<bar>"
proof -
  define e' where "e' = \<lfloor>log 2 \<bar>x\<bar>\<rfloor>"
  have e: "float32_exponent x = e'"
    using assms(2) by (simp add: float32_exponent_def e'_def)
  have "float32_ulp x * 2 ^ 23 = 2 powr of_int (float32_exponent x - 23 + int 23)"
    by (simp only: float32_ulp_scaled)
  also have "\<dots> = 2 powr of_int e'"
    by (simp add: e)
  also have "\<dots> \<le> \<bar>x\<bar>"
    using assms(1) floor_log_eq_powr_iff [of "\<bar>x\<bar>" 2 e'] by (simp add: e'_def)
  finally have "2 ^ 23 \<le> \<bar>x\<bar> / float32_ulp x"
    using float32_ulp_pos [of x] by (simp add: pos_le_divide_eq mult.commute)
  then show ?thesis
    using float32_ulp_pos [of x] by (simp add: abs_divide)
qed


lemma float32_round_output:
  assumes "float32_round x = Fin r"
  shows "\<exists>m k. r = of_int m * 2 powr of_int (k - 23) \<and> \<bar>m\<bar> < 2 ^ 24 \<and> - 126 \<le> k \<and> k \<le> 127"
proof (cases "x = 0")
  case True
  with assms have "r = 0"
    by (simp add: float32_round_def)
  then have "r = of_int 0 * 2 powr of_int (0 - 23) \<and> \<bar>0::int\<bar> < 2 ^ 24 \<and> - 126 \<le> (0::int) \<and> (0::int) \<le> 127"
    by simp
  then show ?thesis by blast
next
  case False
  define e where "e = float32_exponent x"
  define n where "n = round_half_even (x / float32_ulp x)"
  have u: "float32_ulp x = 2 powr of_int (e - 23)"
    by (simp add: float32_ulp_def e_def)
  have "float32_round x =
      (if 2 ^ 128 \<le> \<bar>of_int n * float32_ulp x\<bar> then (if 0 < x then PInf else NInf)
       else Fin (of_int n * float32_ulp x))"
    using False by (simp add: float32_round_def Let_def n_def)
  with assms have "r = of_int n * float32_ulp x \<and> \<bar>of_int n * float32_ulp x\<bar> < (2::real) ^ 128"
    by (auto split: if_splits)
  then have r: "r = of_int n * 2 powr of_int (e - 23)"
    and small: "\<bar>of_int n * 2 powr of_int (e - 23)\<bar> < (2::real) ^ 128"
    unfolding u by simp_all
  have absr: "\<bar>r\<bar> = of_int \<bar>n\<bar> * 2 powr of_int (e - 23)"
    by (simp add: r abs_mult)
  have e_low: "- 126 \<le> e"
    by (simp add: e_def float32_exponent_def)
  have "\<bar>x / float32_ulp x\<bar> \<le> of_int (2 ^ 24)"
    using float32_quotient_less [OF False] by simp
  then have n_le: "\<bar>n\<bar> \<le> 2 ^ 24"
    unfolding n_def by (rule round_half_even_abs_le)
  have p128: "(2::real) ^ 128 = 2 powr of_int 128"
    using powr_realpow [of 2 128] by simp
  have e_high: "e \<le> 127"
  proof (rule ccontr)
    assume "\<not> e \<le> 127"
    then have big: "128 \<le> e" by simp
    then have "- 126 \<le> \<lfloor>log 2 \<bar>x\<bar>\<rfloor>"
      by (simp add: e_def float32_exponent_def max_def split: if_splits)
    then have "of_int (2 ^ 23) \<le> \<bar>x / float32_ulp x\<bar>"
      using float32_quotient_ge [OF False] by simp
    then have "2 ^ 23 \<le> \<bar>n\<bar>"
      unfolding n_def by (rule round_half_even_abs_ge)
    then have "(2::real) ^ 23 \<le> of_int \<bar>n\<bar>"
      by (metis of_int_le_iff of_int_numeral of_int_power)
    then have "2 ^ 23 * 2 powr of_int (e - 23) \<le> \<bar>r\<bar>"
      unfolding absr by (simp add: mult_right_mono)
    moreover have "(2::real) ^ 23 * 2 powr of_int (e - 23) = 2 powr of_int e"
      using float32_ulp_scaled [of x 23] by (simp add: u e_def mult.commute)
    moreover have "(2::real) powr of_int 128 \<le> 2 powr of_int e"
      by (rule powr_mono) (use big in simp_all)
    ultimately have "(2::real) ^ 128 \<le> \<bar>r\<bar>"
      unfolding p128 by linarith
    with small r show False by simp
  qed
  show ?thesis
  proof (cases "\<bar>n\<bar> < 2 ^ 24")
    case True
    with r e_low e_high show ?thesis by blast
  next
    case False
    with n_le have n24: "\<bar>n\<bar> = 2 ^ 24" by simp
    define m where "m = n div 2"
    have "n = 2 ^ 24 \<or> n = - (2 ^ 24)"
      using n24 by linarith
    then have nm: "n = m * 2" and m: "\<bar>m\<bar> < 2 ^ 24"
      by (auto simp: m_def)
    have "(2::real) * 2 powr of_int (e - 23) = 2 powr of_int (e + 1 - 23)"
      using powr_add [of "2::real" 1 "of_int (e - 23)"] by (simp add: add.commute)
    then have r': "r = of_int m * 2 powr of_int (e + 1 - 23)"
      unfolding r nm by (simp add: mult.assoc)
    have "\<bar>r\<bar> = 2 ^ 24 * 2 powr of_int (e - 23)"
      unfolding absr n24 by simp
    also have "\<dots> = 2 powr of_int (e + 1)"
      using float32_ulp_scaled [of x 24] by (simp add: u e_def mult.commute add.commute)
    finally have "(2::real) powr of_int (e + 1) < 2 powr of_int 128"
      using small r p128 by simp
    moreover have "a < b" if "(2::real) powr a < 2 powr b" for a b :: real
      using that by simp
    ultimately have "real_of_int (e + 1) < real_of_int 128"
      by blast
    then have "e + 1 < 128"
      by (simp only: of_int_less_iff)
    with r' m e_low show ?thesis
      by (intro exI [of _ m] exI [of _ "e + 1"]) simp
  qed
qed


lemma float32_round_idem:
  assumes "float32_round p = Fin a"
  shows "float32_round a = Fin a"
proof -
  from float32_round_output [OF assms] obtain m k
    where "a = of_int m * 2 powr of_int (k - 23)" "\<bar>m\<bar> < 2 ^ 24" "- 126 \<le> k" "k \<le> 127"
    by blast
  then show ?thesis
    by (rule float32_round_representable)
qed

lemma float32_round_double:
  assumes "float32_round p = Fin a" and "\<bar>a\<bar> < 2 ^ 127"
  shows "float32_round (a + a) = Fin (a + a)"
proof -
  from float32_round_output [OF assms(1)] obtain m k
    where a: "a = of_int m * 2 powr of_int (k - 23)" and m: "\<bar>m\<bar> < 2 ^ 24"
      and k: "- 126 \<le> k" "k \<le> 127"
    by blast
  show ?thesis
  proof (cases "k \<le> 126")
    case True
    have "(2::real) * 2 powr of_int (k - 23) = 2 powr of_int (k + 1 - 23)"
      using powr_add [of "2::real" 1 "of_int (k - 23)"] by (simp add: add.commute)
    then have "a + a = of_int m * 2 powr of_int (k + 1 - 23)"
      unfolding a by (simp add: mult.assoc mult.commute)
    then show ?thesis
      using m k True by (intro float32_round_representable [of _ m "k + 1"]) simp_all
  next
    case False
    with k have k127: "k = 127" by simp
    have p104: "(2::real) powr of_int (127 - 23) = 2 ^ 104"
      using powr_realpow [of "2::real" 104] by simp
    have "of_int \<bar>m\<bar> * (2::real) ^ 104 < 2 ^ 23 * 2 ^ 104"
      using assms(2) unfolding a k127 p104 by (simp add: abs_mult)
    then have "(of_int \<bar>m\<bar> :: real) < of_int (2 ^ 23)"
      by simp
    then have "\<bar>m\<bar> < 2 ^ 23"
      by (simp only: of_int_less_iff)
    then have "\<bar>2 * m\<bar> < 2 ^ 24"
      by simp
    moreover have "a + a = of_int (2 * m) * 2 powr of_int (k - 23)"
      unfolding a by simp
    ultimately show ?thesis
      using k by (intro float32_round_representable [of _ "2 * m" k]) simp_all
  qed
qed

lemma float32_round_int:
  assumes "\<bar>z\<bar> < 2 ^ 24"
  shows "float32_round (of_int z) = Fin (of_int z)"
  using assms by (intro float32_round_representable [of _ z 23]) simp_all

lemma f32_Fin_D:
  assumes "f32 v = Fin a"
  shows "\<exists>p. float32_round p = Fin a"
  using assms by (cases v) (auto simp: f32_def)

lemma fl_maximum_idem: "fl_maximum a a = a"
  by (cases a) simp_all

lemma fl_minimum_idem: "fl_minimum a a = a"
  by (cases a) simp_all

lemma iou_entry_float32_self:
  assumes "f32_mul (f32_add (f32_sub x2 x1) (Fin 1)) (f32_add (f32_sub y2 y1) (Fin 1)) = Fin a"
    and "0 < a" and "a < 2 ^ 127"
  shows "iou_entry_float32 (x1, y1, x2, y2) (x1, y1, x2, y2) = Fin 1"
proof -
  from assms(1) obtain p where p: "float32_round p = Fin a"
    unfolding f32_mul_def by (blast dest: f32_Fin_D)
  have "float32_round (a + a) = Fin (a + a)"
    using p assms(2,3) by (intro float32_round_double) simp_all
  then have s: "f32_add (Fin a) (Fin a) = Fin (a + a)"
    by (simp add: f32_add_def f32_def)
  have "float32_round a = Fin a"
    using p by (rule float32_round_idem)
  then have d: "f32_sub (Fin (a + a)) (Fin a) = Fin a"
    by (simp add: f32_sub_def f32_def fl_sub_def)
  have "float32_round 1 = Fin 1"
    using float32_round_int [of 1] by simp
  then have q: "f32_div (Fin a) (Fin a) = Fin 1"
    using assms(2) by (simp add: f32_div_def f32_def)
  show ?thesis
    unfolding iou_entry_float32_def Let_def prod.case fl_maximum_idem fl_minimum_idem
      assms(1) s d q
    by simp
qed


lemma float32_exponent_eq:
  assumes "x \<noteq> 0" and "2 powr of_int e \<le> \<bar>x\<bar>" and "\<bar>x\<bar> < 2 powr of_int (e + 1)"
    and "- 126 \<le> e"
  shows "float32_exponent x = e"
proof -
  have "\<lfloor>log 2 \<bar>x\<bar>\<rfloor> = e"
    using assms(1-3) floor_log_eq_powr_iff [of "\<bar>x\<bar>" 2 e] by simp
  with assms(4) show ?thesis
    by (simp add: float32_exponent_def)
qed

lemma float32_round_eval:
  assumes "x \<noteq> 0" and "2 powr of_int e \<le> \<bar>x\<bar>" and "\<bar>x\<bar> < 2 powr of_int (e + 1)"
    and "- 126 \<le> e"
    and "round_half_even (x / 2 powr of_int (e - 23)) = n"
    and "r = of_int n * 2 powr of_int (e - 23)"
  shows "float32_round x = (if 2 ^ 128 \<le> \<bar>r\<bar> then (if 0 < x then PInf else NInf) else Fin r)"
proof -
  have "float32_exponent x = e"
    using assms(1-4) by (rule float32_exponent_eq)
  then show ?thesis
    using assms(1,5,6) by (simp add: float32_round_def float32_ulp_def Let_def)
qed

lemma float32_round_two_64_plus_1: "float32_round (2 ^ 64 + 1) = Fin (2 ^ 64)"
proof -
  have "float32_round (2 ^ 64 + 1)
      = (if 2 ^ 128 \<le> \<bar>(2::real) ^ 64\<bar> then (if (0::real) < 2 ^ 64 + 1 then PInf else NInf)
         else Fin (2 ^ 64))"
    by (rule float32_round_eval [where e = 64 and n = "2 ^ 23"])
      (simp_all add: round_half_even_def)
  then show ?thesis by simp
qed

lemma float32_round_two_128: "float32_round (2 ^ 128) = PInf"
proof -
  have "float32_round (2 ^ 128)
      = (if 2 ^ 128 \<le> \<bar>(2::real) ^ 128\<bar> then (if (0::real) < 2 ^ 128 then PInf else NInf)
         else Fin (2 ^ 128))"
    by (rule float32_round_eval [where e = 128 and n = "2 ^ 23"])
      (simp_all add: round_half_even_def)
  then show ?thesis by simp
qed

lemma float32_round_two_64: "float32_round (2 ^ 64) = Fin (2 ^ 64)"
  by (rule float32_round_representable [of _ "2 ^ 23" 64]) simp_all

lemma float32_round_cancel: "float32_round (1 / 2 ^ 30 - 1) = Fin (- 1)"
proof -
  have "float32_round (1 / 2 ^ 30 - 1)
      = (if 2 ^ 128 \<le> \<bar>- 1 :: real\<bar> then (if (0::real) < 1 / 2 ^ 30 - 1 then PInf else NInf)
         else Fin (- 1))"
    by (rule float32_round_eval [where e = "- 1" and n = "- (2 ^ 24)"])
      (simp_all add: round_half_even_def powr_minus)
  then show ?thesis by simp
qed

lemma iou_entry_float32_cancellation:
  "iou_entry_float32 (Fin 1, Fin 0, Fin (1 / 2 ^ 30), Fin 0) (Fin 1, Fin 0, Fin (1 / 2 ^ 30), Fin 0)
     = NaN"
proof -
  have one: "float32_round 1 = Fin 1"
    using float32_round_int [of 1] by simp
  have zero: "float32_round 0 = Fin 0"
    by (simp add: float32_round_def)
  have "f32_sub (Fin (1 / 2 ^ 30)) (Fin 1) = Fin (- 1)"
    by (simp add: f32_sub_def f32_def fl_sub_def float32_round_cancel [simplified])
  then have w: "f32_add (f32_sub (Fin (1 / 2 ^ 30)) (Fin 1)) (Fin 1) = Fin 0"
    by (simp add: f32_add_def f32_def zero)
  have h: "f32_add (f32_sub (Fin 0) (Fin 0)) (Fin 1) = Fin 1"
    by (simp add: f32_add_def f32_sub_def f32_def fl_sub_def one zero)
  show ?thesis
    unfolding iou_entry_float32_def Let_def prod.case fl_maximum_idem fl_minimum_idem w h
    by (simp add: f32_mul_def f32_add_def f32_sub_def f32_div_def f32_def fl_sub_def zero)
qed

lemma float32_round_two_63_plus_1: "float32_round (2 ^ 63 + 1) = Fin (2 ^ 63)"
proof -
  have "float32_round (2 ^ 63 + 1)
      = (if 2 ^ 128 \<le> \<bar>(2::real) ^ 63\<bar> then (if (0::real) < 2 ^ 63 + 1 then PInf else NInf)
         else Fin (2 ^ 63))"
    by (rule float32_round_eval [where e = 63 and n = "2 ^ 23"])
      (simp_all add: round_half_even_def)
  then show ?thesis by simp
qed

lemma float32_round_two_63: "float32_round (2 ^ 63) = Fin (2 ^ 63)"
  by (rule float32_round_representable [of _ "2 ^ 23" 63]) simp_all

lemma float32_round_two_127: "float32_round (2 ^ 127) = Fin (2 ^ 127)"
  by (rule float32_round_representable [of _ "2 ^ 23" 127]) simp_all

lemma iou_entry_float32_double_overflow:
  "iou_entry_float32 (Fin 0, Fin 0, Fin (2 ^ 64), Fin (2 ^ 63))
     (Fin 0, Fin 0, Fin (2 ^ 64), Fin (2 ^ 63)) = Fin 0"
proof -
  have zero: "float32_round 0 = Fin 0"
    by (simp add: float32_round_def)
  have w: "f32_add (f32_sub (Fin (2 ^ 64)) (Fin 0)) (Fin 1) = Fin (2 ^ 64)"
    by (simp add: f32_add_def f32_sub_def f32_def fl_sub_def float32_round_two_64 [simplified]
        float32_round_two_64_plus_1 [simplified])
  have h: "f32_add (f32_sub (Fin (2 ^ 63)) (Fin 0)) (Fin 1) = Fin (2 ^ 63)"
    by (simp add: f32_add_def f32_sub_def f32_def fl_sub_def float32_round_two_63 [simplified]
        float32_round_two_63_plus_1 [simplified])
  have a: "f32_mul (Fin (2 ^ 64)) (Fin (2 ^ 63)) = Fin (2 ^ 127)"
    by (simp add: f32_mul_def f32_def float32_round_two_127 [simplified])
  have s: "f32_add (Fin (2 ^ 127)) (Fin (2 ^ 127)) = PInf"
    by (simp add: f32_add_def f32_def float32_round_two_128 [simplified])
  have d: "f32_sub PInf (Fin (2 ^ 127)) = PInf"
    by (simp add: f32_sub_def f32_def fl_sub_def)
  have q: "f32_div (Fin (2 ^ 127)) PInf = Fin 0"
    by (simp add: f32_div_def f32_def zero)
  show ?thesis
    unfolding iou_entry_float32_def Let_def prod.case fl_maximum_idem fl_minimum_idem w h a s d q
    by simp
qed

text \<open>
  The box \<open>(0, 0, 2 ** 64, 2 ** 64)\<close> has positive width and height under the \<open>+1\<close>
  convention. In float32 its width \<open>2 ** 64 + 1\<close> rounds to \<open>2 ** 64\<close>, its area
  \<open>2 ** 128\<close> is infinite, the union is \<open>inf + inf - inf\<close>, and the overlap of the box
  with itself is \<open>NaN\<close>, not \<open>1.0\<close>. Rounding can also cancel a positive width to 0
  (\<open>iou_entry_float32_cancellation\<close>), when \<open>x1\<close> is above \<open>x2\<close>; and a finite area
  from \<open>2 ** 127\<close> on has an infinite double, which makes the overlap 0
  (\<open>iou_entry_float32_double_overflow\<close>).
\<close>

theorem bbox_overlap_iou_float32_self_overflow:
  "(0::real) < 2 ^ 64 - 0 + 1
   \<and> bbox_overlap_iou_float32 [(Fin 0, Fin 0, Fin (2 ^ 64), Fin (2 ^ 64))]
       [(Fin 0, Fin 0, Fin (2 ^ 64), Fin (2 ^ 64))] = \<lparr>ncols = 1, rws = [[NaN]]\<rparr>"
proof -
  have w: "f32_add (f32_sub (Fin (2 ^ 64)) (Fin 0)) (Fin 1) = Fin (2 ^ 64)"
    by (simp add: f32_add_def f32_sub_def f32_def fl_sub_def float32_round_two_64 [simplified]
        float32_round_two_64_plus_1 [simplified])
  have a: "f32_mul (Fin (2 ^ 64)) (Fin (2 ^ 64)) = PInf"
    by (simp add: f32_mul_def f32_def float32_round_two_128 [simplified])
  have "iou_entry_float32 (Fin 0, Fin 0, Fin (2 ^ 64), Fin (2 ^ 64))
      (Fin 0, Fin 0, Fin (2 ^ 64), Fin (2 ^ 64)) = NaN"
    unfolding iou_entry_float32_def Let_def prod.case fl_maximum_idem fl_minimum_idem w a
    by (simp add: f32_add_def f32_sub_def f32_div_def f32_def fl_sub_def)
  then show ?thesis
    by (simp add: bbox_overlap_iou_float32_def)
qed

text \<open>
  C4. In exact arithmetic the overlap of a non-degenerate box with itself is 1
  (\<open>iou_entry_self\<close>). In float32 it is exactly \<open>1.0\<close> whenever the area of the box, as
  lines 98 and 99 compute it, is a finite number \<open>a\<close> with \<open>0 < a < 2 ** 127\<close>: then
  \<open>a + a\<close> and \<open>(a + a) - a\<close> are exact and \<open>a / a\<close> is 1. Wherever such a box stands
  at row \<open>i\<close> of the first set and at row \<open>j\<close> of the second, entry \<open>[i, j]\<close> of
  \<^verbatim>\<open>bbox_overlap_iou\<close> is \<open>1.0\<close>.
\<close>

theorem bbox_overlap_iou_float32_self:
  assumes "i < length bboxes1" and "j < length bboxes2"
    and "bboxes1 ! i = (x1, y1, x2, y2)" and "bboxes2 ! j = (x1, y1, x2, y2)"
    and "f32_mul (f32_add (f32_sub x2 x1) (Fin 1)) (f32_add (f32_sub y2 y1) (Fin 1)) = Fin a"
    and "0 < a" and "a < 2 ^ 127"
  shows "rws (bbox_overlap_iou_float32 bboxes1 bboxes2) ! i ! j = Fin 1"
  using assms by (simp add: bbox_overlap_iou_float32_def iou_entry_float32_self)

theorem bbox_overlap_iou_float32_self_witness:
  "f32_mul (f32_add (f32_sub (Fin 7) (Fin 2)) (Fin 1)) (f32_add (f32_sub (Fin 5) (Fin 3)) (Fin 1))
     = Fin 18
   \<and> rws (bbox_overlap_iou_float32 [(Fin 2, Fin 3, Fin 7, Fin 5)]
          [(Fin 2, Fin 3, Fin 7, Fin 5)]) ! 0 ! 0 = Fin 1"
proof -
  have r: "float32_round 5 = Fin 5" "float32_round 6 = Fin 6" "float32_round 2 = Fin 2"
    "float32_round 3 = Fin 3" "float32_round 18 = Fin 18"
    using float32_round_int [of 5] float32_round_int [of 6] float32_round_int [of 2]
      float32_round_int [of 3] float32_round_int [of 18]
    by simp_all
  have a: "f32_mul (f32_add (f32_sub (Fin 7) (Fin 2)) (Fin 1))
      (f32_add (f32_sub (Fin 5) (Fin 3)) (Fin 1)) = Fin 18"
    by (simp add: f32_mul_def f32_add_def f32_sub_def f32_def fl_sub_def r)
  have "rws (bbox_overlap_iou_float32 [(Fin 2, Fin 3, Fin 7, Fin 5)]
          [(Fin 2, Fin 3, Fin 7, Fin 5)]) ! 0 ! 0 = Fin 1"
    by (rule bbox_overlap_iou_float32_self [OF _ _ _ _ a]) simp_all
  with a show ?thesis ..
qed

text \<open>
  C5. Swapping the two box sets transposes the result: entry \<open>[i, j]\<close> of
  \<^verbatim>\<open>bbox_overlap_iou(A, B)\<close> is entry \<open>[j, i]\<close> of \<^verbatim>\<open>bbox_overlap_iou(B, A)\<close>, for
  all valid \<open>i\<close> and \<open>j\<close>.
\<close>

theorem bbox_overlap_iou_transpose:
  assumes "i < length A" and "j < length B"
  shows "rws (bbox_overlap_iou A B) ! i ! j = rws (bbox_overlap_iou B A) ! j ! i"
  using assms by (simp add: bbox_overlap_iou_def iou_entry_commute)


theorem bbox_overlap_iou_transpose_witness:
  "rws (bbox_overlap_iou [(Fin 0, Fin 0, Fin 2, Fin 2), (Fin 1, Fin 1, Fin 3, Fin 3)]
          [(Fin 1, Fin 0, Fin 4, Fin 2)]) ! 1 ! 0 = Fin (2 / 5)
   \<and> rws (bbox_overlap_iou [(Fin 1, Fin 0, Fin 4, Fin 2)]
          [(Fin 0, Fin 0, Fin 2, Fin 2), (Fin 1, Fin 1, Fin 3, Fin 3)]) ! 0 ! 1 = Fin (2 / 5)"
proof -
  let ?A = "[(Fin 0, Fin 0, Fin 2, Fin 2), (Fin 1, Fin 1, Fin 3, Fin 3)]"
  let ?B = "[(Fin 1, Fin 0, Fin 4, Fin 2)]"
  have v: "rws (bbox_overlap_iou ?A ?B) ! 1 ! 0 = Fin (2 / 5)"
    by (simp add: bbox_overlap_iou_def iou_entry_def fl_sub_def)
  have "rws (bbox_overlap_iou ?A ?B) ! 1 ! 0 = rws (bbox_overlap_iou ?B ?A) ! 0 ! 1"
    by (rule bbox_overlap_iou_transpose) simp_all
  with v show ?thesis by simp
qed

lemma bbox_overlap_iou_not_negative:
  assumes "i < length bboxes1" and "j < length bboxes2"
  shows "\<not> fl_less (rws (bbox_overlap_iou bboxes1 bboxes2) ! i ! j) (Fin 0)"
  using assms by (simp add: bbox_overlap_iou_def iou_entry_not_negative)

text \<open>
  C2. The clamp of line 103 keeps every entry of \<^verbatim>\<open>bbox_overlap_iou\<close> from being
  negative (\<open>bbox_overlap_iou_not_negative\<close>), but two boxes with no spatial overlap do
  not always get 0. The boxes \<open>(0, 0, 10, 10)\<close> and \<open>(12, 12, 13, 13)\<close> are apart on both
  axes: the width and the height of the intersection are both \<open>-1\<close>, their product is
  the positive area 1, the union is \<open>121 + 4 - 1\<close>, and the entry is \<open>1/124\<close>.
\<close>

theorem bbox_overlap_iou_disjoint_boxes:
  "bbox_overlap_iou [(Fin 0, Fin 0, Fin 10, Fin 10)] [(Fin 12, Fin 12, Fin 13, Fin 13)]
     = \<lparr>ncols = 1, rws = [[Fin (1 / 124)]]\<rparr>"
  by (simp add: bbox_overlap_iou_def iou_entry_def fl_sub_def)

section \<open>Properties of the focal loss\<close>

lemma fl_not_equal_Fin: "fl_not_equal s (Fin c) = (s \<noteq> Fin c)"
  by (cases s) (auto simp: fl_not_equal_def)

lemma fl_equal_Fin: "fl_equal s (Fin c) = (s = Fin c)"
  by (cases s) auto

lemma filter_snd_enumerate:
  "map fst (filter snd (enumerate k bs)) = map (\<lambda>i. i + k) (filter (\<lambda>i. bs ! i) [0..<length bs])"
proof (induction bs arbitrary: k)
  case Nil
  then show ?case by simp
next
  case (Cons b bs)
  have "filter (\<lambda>i. (b # bs) ! i) [0..<length (b # bs)]
      = (if b then [0] else []) @ map Suc (filter (\<lambda>i. bs ! i) [0..<length bs])"
    by (simp add: upt_conv_Cons map_Suc_upt [symmetric] filter_map comp_def del: upt_Suc)
  then show ?case
    using Cons.IH [of "Suc k"] by (simp add: comp_def)
qed

lemma where_indices_filter: "where_indices bs = filter (\<lambda>i. bs ! i) [0..<length bs]"
  by (simp add: where_indices_def filter_snd_enumerate)

lemma set_where_indices: "set (where_indices bs) = {i. i < length bs \<and> bs ! i}"
  by (auto simp: where_indices_filter)

lemma length_filter_enumerate:
  "length (filter snd (enumerate k bs)) = length (filter id bs)"
  by (induction bs arbitrary: k) auto

lemma length_where_indices: "length (where_indices bs) = length (filter id bs)"
  by (simp add: where_indices_def length_filter_enumerate)


lemma set_where_indices2:
  "(b, n) \<in> set (where_indices2 bss) \<longleftrightarrow> b < length bss \<and> n < length (bss ! b) \<and> bss ! b ! n"
proof -
  have "(b, n) \<in> set (where_indices2 bss)
      \<longleftrightarrow> (\<exists>p \<in> set (enumerate 0 bss). b = fst p \<and> n \<in> set (where_indices (snd p)))"
    by (simp add: where_indices2_def case_prod_beta image_iff)
  also have "\<dots> \<longleftrightarrow> (\<exists>bs. (b, bs) \<in> set (enumerate 0 bss) \<and> n \<in> set (where_indices bs))"
    by (simp add: Bex_def)
  also have "\<dots> \<longleftrightarrow> b < length bss \<and> n < length (bss ! b) \<and> bss ! b ! n"
    by (simp add: in_set_enumerate_eq set_where_indices)
  finally show ?thesis .
qed

lemma length_where_enumerate:
  "length (concat (map (\<lambda>(b, bs). map (\<lambda>n. (b, n)) (where_indices bs)) (enumerate k bss)))
     = length (filter id (concat bss))"
  by (induction bss arbitrary: k) (simp_all add: length_where_indices)

lemma length_where_indices2: "length (where_indices2 bss) = length (filter id (concat bss))"
  by (simp add: where_indices2_def length_where_enumerate)


lemma focal_indices_iff:
  "(b, n) \<in> set (focal_indices y_true)
     \<longleftrightarrow> b < length y_true \<and> n < length (y_true ! b) \<and> last (y_true ! b ! n) \<noteq> Fin (- 1)"
  by (auto simp: focal_indices_def set_where_indices2 fl_not_equal_Fin)

lemma focal_normalizer_count:
  "focal_normalizer y_true
     = Fin (max 1 (real (length (filter (\<lambda>t. last t = Fin 1) (concat y_true)))))"
proof -
  have "length (filter id (concat (map (map (\<lambda>s. fl_equal s (Fin 1))) (map (map last) y_true))))
      = length (filter (\<lambda>t. last t = Fin 1) (concat y_true))"
    by (simp add: map_concat [symmetric] filter_map fl_equal_Fin comp_def)
  then show ?thesis
    by (simp add: focal_normalizer_def length_where_indices2 max_def)
qed

lemma focal_indices_all_ignored:
  assumes "list_all (list_all (\<lambda>t. last t = Fin (- 1))) y_true"
  shows "focal_indices y_true = []"
proof -
  have "p \<notin> set (focal_indices y_true)" for p
  proof (cases p)
    case (Pair b n)
    show ?thesis
      using assms unfolding Pair focal_indices_iff by (auto simp: list_all_length)
  qed
  then show ?thesis
    by (cases "focal_indices y_true") auto
qed

text \<open>
  C7. When every anchor of the target has state \<open>-1\<close>, the focal loss is exactly 0 for
  every prediction of the matching shape: no index is gathered, the sum of the empty
  loss tensor is 0, and the normaliser \<open>max(1.0, 0)\<close> is 1.
\<close>

theorem focal_all_ignored:
  assumes "list_all2 (list_all2 (\<lambda>t p. length t = Suc (length p))) y_true y_pred"
    and "list_all (list_all (\<lambda>t. last t = Fin (- 1))) y_true"
  shows "focal pow binary_crossentropy alpha gamma y_true y_pred = Inr (Fin 0)"
proof -
  have "max 1 r \<noteq> 0" for r :: real
    by (auto simp: max_def)
  then have "fl_div (Fin 0) (focal_normalizer y_true) = Fin 0"
    by (simp add: focal_normalizer_count)
  then show ?thesis
    using assms(1)
    by (simp add: focal_def Let_def focal_indices_all_ignored [OF assms(2)] gather_nd2_def
        ebind_def fl_sum_def)
qed


theorem focal_all_ignored_witness:
  "focal (\<lambda>x g. fl_mul x x) (\<lambda>l p. Fin 1) 0.25 2
     [[[Fin 1, Fin 0, Fin (- 1)], [Fin 0, Fin 0, Fin (- 1)]]]
     [[[Fin 0.9, Fin 0.1], [Fin 0.5, Fin 0.5]]] = Inr (Fin 0)"
  by (rule focal_all_ignored) simp_all

lemma map_map_update_same:
  assumes "f r' = f (xss ! b ! n)" and "b < length xss" and "n < length (xss ! b)"
  shows "map (map f) (xss[b := (xss ! b)[n := r']]) = map (map f) xss"
proof -
  have "map f ((xss ! b)[n := r']) = map f (xss ! b)"
    using assms by (simp add: list_eq_iff_nth_eq nth_list_update)
  then show ?thesis
    using assms(2) by (simp add: list_eq_iff_nth_eq nth_list_update)
qed

lemma focal_depends:
  "focal pow binary_crossentropy alpha gamma y_true y_pred =
     (if \<not> list_all2 (list_all2 (\<lambda>l p. l = Suc (length p))) (map (map length) y_true) y_pred
      then Inl InvalidArgument
      else
        let indices = where_indices2
              (map (map (\<lambda>t. fl_not_equal (last t) (Fin (- 1)))) y_true)
        in ebind (gather_nd2 (map (map butlast) y_true) indices) (\<lambda>labels.
           ebind (gather_nd2 y_pred indices) (\<lambda>classification.
             Inr (fl_div
               (fl_sum (concat (map (\<lambda>(ls, cs).
                   map (\<lambda>(l, c). focal_element pow binary_crossentropy alpha gamma l c)
                     (zip ls cs)) (zip labels classification))))
               (fl_maximum (Fin 1) (Fin (real (length (where_indices2
                  (map (map (\<lambda>t. fl_equal (last t) (Fin 1))) y_true))))))))))"
  by (simp add: focal_def focal_indices_def focal_normalizer_def Let_def list_all2_map1 comp_def)

lemma gather_nd2_in_range:
  assumes "list_all (\<lambda>(b, n). b < length xss \<and> n < length (xss ! b)) indices"
  shows "gather_nd2 xss indices = Inr (map (\<lambda>(b, n). xss ! b ! n) indices)"
  using assms unfolding gather_nd2_def
  by (induction indices) (auto simp: gather2_def gather_def ebind_def)

lemma focal_indices_in_range:
  "list_all (\<lambda>(b, n). b < length y_true \<and> n < length (y_true ! b)) (focal_indices y_true)"
  by (auto simp: list_all_iff focal_indices_iff)

lemma focal_gathered_sum:
  assumes "list_all2 (list_all2 (\<lambda>t p. length t = Suc (length p))) y_true y_pred"
  shows "focal pow binary_crossentropy alpha gamma y_true y_pred
       = Inr (fl_div
           (fl_sum (concat (map (\<lambda>(b, n).
              map (\<lambda>(l, c). focal_element pow binary_crossentropy alpha gamma l c)
                (zip (butlast (y_true ! b ! n)) (y_pred ! b ! n)))
              (focal_indices y_true))))
           (focal_normalizer y_true))"
proof -
  let ?idx = "focal_indices y_true"
  have len: "length y_pred = length y_true"
    using assms by (simp add: list_all2_lengthD)
  have len2: "length (y_pred ! b) = length (y_true ! b)" if "b < length y_true" for b
    using list_all2_nthD [OF assms that] by (simp add: list_all2_lengthD)
  have in_true: "list_all (\<lambda>(b, n). b < length (map (map butlast) y_true)
      \<and> n < length (map (map butlast) y_true ! b)) ?idx"
    using focal_indices_in_range [of y_true] by (auto simp: list_all_iff)
  have in_pred: "list_all (\<lambda>(b, n). b < length y_pred \<and> n < length (y_pred ! b)) ?idx"
    using focal_indices_in_range [of y_true] by (auto simp: list_all_iff len len2)
  have "map (\<lambda>(b, n). map (map butlast) y_true ! b ! n) ?idx
      = map (\<lambda>(b, n). butlast (y_true ! b ! n)) ?idx"
    using focal_indices_in_range [of y_true] by (auto simp: list_all_iff)
  then have g1: "gather_nd2 (map (map butlast) y_true) ?idx
      = Inr (map (\<lambda>(b, n). butlast (y_true ! b ! n)) ?idx)"
    using gather_nd2_in_range [OF in_true] by simp
  have g2: "gather_nd2 y_pred ?idx = Inr (map (\<lambda>(b, n). y_pred ! b ! n) ?idx)"
    by (rule gather_nd2_in_range [OF in_pred])
  have z: "map (\<lambda>(ls, cs). map (\<lambda>(l, c). focal_element pow binary_crossentropy alpha gamma l c)
          (zip ls cs))
        (zip (map (\<lambda>(b, n). butlast (y_true ! b ! n)) ?idx) (map (\<lambda>(b, n). y_pred ! b ! n) ?idx))
      = map (\<lambda>(b, n). map (\<lambda>(l, c). focal_element pow binary_crossentropy alpha gamma l c)
          (zip (butlast (y_true ! b ! n)) (y_pred ! b ! n))) ?idx"
    by (simp add: zip_map_map zip_same_conv_map case_prod_beta)
  show ?thesis
    using assms by (simp add: focal_def Let_def g1 g2 ebind_def z)
qed


lemma enumerate_as_map: "enumerate 0 xs = map (\<lambda>i. (i, xs ! i)) [0..<length xs]"
  by (rule nth_equalityI) (simp_all add: nth_enumerate_eq)

lemma map_Pair_filter:
  "map (\<lambda>n. (b, n)) (filter Q ns) = concat (map (\<lambda>n. if Q n then [(b, n)] else []) ns)"
  by (induction ns) simp_all

lemma where_indices_map:
  "where_indices (map P xs) = filter (\<lambda>n. P (xs ! n)) [0..<length xs]"
  unfolding where_indices_filter by (rule filter_cong) simp_all

lemma where_indices2_comprehension:
  "where_indices2 (map (map P) xss)
     = [(b, n). b \<leftarrow> [0..<length xss], n \<leftarrow> [0..<length (xss ! b)], P (xss ! b ! n)]"
proof -
  have "where_indices2 (map (map P) xss)
      = concat (map (\<lambda>b. map (\<lambda>n. (b, n)) (where_indices (map P (xss ! b)))) [0..<length xss])"
    unfolding where_indices2_def enumerate_as_map map_map comp_def prod.case
    by (intro arg_cong [where f = concat] map_cong) simp_all
  also have "\<dots> = concat (map (\<lambda>b. concat (map (\<lambda>n. if P (xss ! b ! n) then [(b, n)] else [])
      [0..<length (xss ! b)])) [0..<length xss])"
    by (simp add: where_indices_map map_Pair_filter)
  finally show ?thesis .
qed

lemma focal_indices_comprehension:
  "focal_indices y_true
     = [(b, n). b \<leftarrow> [0..<length y_true], n \<leftarrow> [0..<length (y_true ! b)],
          last (y_true ! b ! n) \<noteq> Fin (- 1)]"
proof -
  have "focal_indices y_true
      = where_indices2 (map (map (\<lambda>t. last t \<noteq> Fin (- 1))) y_true)"
    by (simp add: focal_indices_def comp_def fl_not_equal_Fin)
  then show ?thesis
    by (simp only: where_indices2_comprehension)
qed

lemma focal_normalizer_comprehension:
  "focal_normalizer y_true
     = Fin (max 1 (real (length
         [(b, n). b \<leftarrow> [0..<length y_true], n \<leftarrow> [0..<length (y_true ! b)],
            last (y_true ! b ! n) = Fin 1])))"
proof -
  have "focal_normalizer y_true
      = fl_maximum (Fin 1) (Fin (real (length
          (where_indices2 (map (map (\<lambda>t. last t = Fin 1)) y_true)))))"
    by (simp add: focal_normalizer_def Let_def comp_def fl_equal_Fin)
  then show ?thesis
    by (simp only: where_indices2_comprehension) (simp add: max_def)
qed


text \<open>
  C9. For a target and a prediction of the docstring's shapes, the focal loss is the sum
  of the focal terms of every anchor whose state is not \<open>-1\<close>, divided by the number of
  anchors whose state is exactly \<open>1\<close>, floored to 1. An anchor whose state is neither
  \<open>-1\<close> nor \<open>1\<close> (2, for one) is among the anchors summed and is not among the anchors
  counted; the loss does not change when its state is replaced by the background state 0.
\<close>

theorem focal_unlisted_state:
  assumes "list_all2 (list_all2 (\<lambda>t p. length t = Suc (length p))) y_true y_pred"
    and "b < length y_true" and "n < length (y_true ! b)"
    and "last (y_true ! b ! n) \<noteq> Fin (- 1)" and "last (y_true ! b ! n) \<noteq> Fin 1"
  shows "focal pow binary_crossentropy alpha gamma y_true y_pred
           = Inr (fl_div
               (fl_sum (concat (map (\<lambda>(i, k).
                  map (\<lambda>(l, c). focal_element pow binary_crossentropy alpha gamma l c)
                    (zip (butlast (y_true ! i ! k)) (y_pred ! i ! k)))
                  [(i, k). i \<leftarrow> [0..<length y_true], k \<leftarrow> [0..<length (y_true ! i)],
                     last (y_true ! i ! k) \<noteq> Fin (- 1)])))
               (Fin (max 1 (real (length
                  [(i, k). i \<leftarrow> [0..<length y_true], k \<leftarrow> [0..<length (y_true ! i)],
                     last (y_true ! i ! k) = Fin 1])))))
       \<and> (b, n) \<in> set [(i, k). i \<leftarrow> [0..<length y_true], k \<leftarrow> [0..<length (y_true ! i)],
                          last (y_true ! i ! k) \<noteq> Fin (- 1)]
       \<and> (b, n) \<notin> set [(i, k). i \<leftarrow> [0..<length y_true], k \<leftarrow> [0..<length (y_true ! i)],
                          last (y_true ! i ! k) = Fin 1]
       \<and> focal pow binary_crossentropy alpha gamma
           (y_true[b := (y_true ! b)[n := butlast (y_true ! b ! n) @ [Fin 0]]]) y_pred
           = focal pow binary_crossentropy alpha gamma y_true y_pred"
proof -
  let ?r = "y_true ! b ! n"
  have "length ?r = Suc (length (y_pred ! b ! n))"
    using assms(1-3) by (auto dest!: list_all2_nthD)
  then have ne: "?r \<noteq> []"
    by auto
  have same: "map (map f) (y_true[b := (y_true ! b)[n := r']]) = map (map f) y_true"
    if "f r' = f ?r" for f :: "fl list \<Rightarrow> 'a" and r'
    using that assms(2,3) by (rule map_map_update_same)
  let ?y0 = "y_true[b := (y_true ! b)[n := butlast ?r @ [Fin 0]]]"
  have len: "map (map length) ?y0 = map (map length) y_true"
    using ne by (intro same) simp
  have lab: "map (map butlast) ?y0 = map (map butlast) y_true"
    by (intro same) simp
  have kept: "map (map (\<lambda>t. fl_not_equal (last t) (Fin (- 1)))) ?y0
            = map (map (\<lambda>t. fl_not_equal (last t) (Fin (- 1)))) y_true"
    using assms(4) by (intro same) (simp add: fl_not_equal_Fin)
  have pos: "map (map (\<lambda>t. fl_equal (last t) (Fin 1))) ?y0
           = map (map (\<lambda>t. fl_equal (last t) (Fin 1))) y_true"
    using assms(5) by (intro same) (simp add: fl_equal_Fin)
  have inv: "focal pow binary_crossentropy alpha gamma ?y0 y_pred
      = focal pow binary_crossentropy alpha gamma y_true y_pred"
    unfolding focal_depends len lab kept pos ..
  have mem: "(b, n) \<in> set [(i, k). i \<leftarrow> [0..<length y_true], k \<leftarrow> [0..<length (y_true ! i)],
      last (y_true ! i ! k) \<noteq> Fin (- 1)]"
    using assms(2-4) by simp
  have out: "(b, n) \<notin> set [(i, k). i \<leftarrow> [0..<length y_true], k \<leftarrow> [0..<length (y_true ! i)],
      last (y_true ! i ! k) = Fin 1]"
    using assms(5) by simp
  have val: "focal pow binary_crossentropy alpha gamma y_true y_pred
      = Inr (fl_div
          (fl_sum (concat (map (\<lambda>(i, k).
             map (\<lambda>(l, c). focal_element pow binary_crossentropy alpha gamma l c)
               (zip (butlast (y_true ! i ! k)) (y_pred ! i ! k)))
             [(i, k). i \<leftarrow> [0..<length y_true], k \<leftarrow> [0..<length (y_true ! i)],
                last (y_true ! i ! k) \<noteq> Fin (- 1)])))
          (Fin (max 1 (real (length
             [(i, k). i \<leftarrow> [0..<length y_true], k \<leftarrow> [0..<length (y_true ! i)],
                last (y_true ! i ! k) = Fin 1])))))"
    using focal_gathered_sum [OF assms(1), of pow binary_crossentropy alpha gamma]
    unfolding focal_indices_comprehension focal_normalizer_comprehension .
  from val mem out inv show ?thesis
    by (intro conjI)
qed

theorem focal_unlisted_state_witness:
  "focal (\<lambda>x g. fl_mul x x) (\<lambda>l p. Fin 1) 0.25 2
       [[[Fin 1, Fin 1], [Fin 0, Fin 1], [Fin 1, Fin 2]]]
       [[[Fin 0.9], [Fin 0.2], [Fin 0.5]]] = Inr (Fin (19 / 400))
   \<and> focal (\<lambda>x g. fl_mul x x) (\<lambda>l p. Fin 1) 0.25 2
       [[[Fin 1, Fin 1], [Fin 0, Fin 1], [Fin 1, Fin 0]]]
       [[[Fin 0.9], [Fin 0.2], [Fin 0.5]]] = Inr (Fin (19 / 400))"
proof -
  let ?Y = "[[[Fin 1, Fin 1], [Fin 0, Fin 1], [Fin 1, Fin 2]]]"
  let ?X = "[[[Fin 0.9], [Fin 0.2], [Fin 0.5]]]"
  have u: "[0..<3] = [0, 1, 2]" "[0..<Suc 0] = [0]"
    by (simp_all add: upt_rec)
  from focal_unlisted_state [of ?Y ?X 0 2 "\<lambda>x g. fl_mul x x" "\<lambda>l p. Fin 1" "0.25" 2]
  have v: "focal (\<lambda>x g. fl_mul x x) (\<lambda>l p. Fin 1) 0.25 2 ?Y ?X = Inr (Fin (19 / 400))"
    and i: "focal (\<lambda>x g. fl_mul x x) (\<lambda>l p. Fin 1) 0.25 2
        [[[Fin 1, Fin 1], [Fin 0, Fin 1], [Fin 1, Fin 0]]] ?X
      = focal (\<lambda>x g. fl_mul x x) (\<lambda>l p. Fin 1) 0.25 2 ?Y ?X"
    by (simp_all add: u focal_element_def fl_sub_def fl_sum_def)
  then show ?thesis
    by simp
qed

section \<open>Properties of the smooth distances\<close>

lemma smooth_l1_where_Fin:
  "smooth_l1_where s (Fin t) = Fin (if t < 1 / s then 0.5 * s * (t * t) else t - 0.5 / s)"
  by (simp add: smooth_l1_where_def smooth_l1_quadratic_def smooth_l1_linear_def fl_sub_def)

lemma smooth_l1_pieces_continuous:
  fixes s :: real
  assumes "0 < s"
  shows "continuous_on UNIV (\<lambda>t. if t < 1 / s then 0.5 * s * (t * t) else t - 0.5 / s)"
proof -
  have "continuous_on ({t. t \<le> 1 / s} \<union> {t. 1 / s \<le> t})
      (\<lambda>t. if t < 1 / s then 0.5 * s * (t * t) else t - 0.5 / s)"
  proof (rule continuous_on_If)
    show "closed {t. t \<le> 1 / s}" by (rule closed_Collect_le) (intro continuous_intros)+
    show "closed {t. 1 / s \<le> t}" by (rule closed_Collect_le) (intro continuous_intros)+
    show "continuous_on {t. t \<le> 1 / s} (\<lambda>t. 0.5 * s * (t * t))" by (intro continuous_intros)
    show "continuous_on {t. 1 / s \<le> t} (\<lambda>t. t - 0.5 / s)" by (intro continuous_intros)
    show "0.5 * s * (t * t) = t - 0.5 / s" if "t \<in> {t. t \<le> 1 / s}" "\<not> t < 1 / s" for t
    proof -
      have t: "t = 1 / s" using that by simp
      have "0.5 * s * ((1 / s) * (1 / s)) = 0.5 / s"
        using assms by simp
      moreover have "1 / s - 0.5 / s = 0.5 / s"
        by (simp add: field_simps)
      ultimately show ?thesis unfolding t by simp
    qed
    show "0.5 * s * (t * t) = t - 0.5 / s" if "t \<in> {t. 1 / s \<le> t}" "t < 1 / s" for t
      using that by simp
  qed
  moreover have "{t. t \<le> 1 / s} \<union> {t. 1 / s \<le> t} = UNIV"
    by auto
  ultimately show ?thesis by simp
qed

lemma smooth_l1_where_isCont:
  assumes "0 < s"
  shows "isCont (\<lambda>d. the_Fin (smooth_l1_where s (fl_abs (Fin d)))) d0"
proof -
  let ?h = "\<lambda>t. if t < 1 / s then 0.5 * s * (t * t) else t - 0.5 / s"
  have eq: "(\<lambda>d. the_Fin (smooth_l1_where s (fl_abs (Fin d)))) = ?h \<circ> abs"
    by (rule ext) (simp add: smooth_l1_where_Fin)
  have "continuous_on UNIV (?h \<circ> abs)"
    by (rule continuous_on_compose)
      (auto intro: continuous_intros continuous_on_subset [OF smooth_l1_pieces_continuous [OF assms]])
  then have "\<forall>x\<in>UNIV. isCont (?h \<circ> abs) x"
    by (simp only: continuous_on_eq_continuous_at [OF open_UNIV])
  then show ?thesis
    unfolding eq by (rule bspec) (rule UNIV_I)
qed

text \<open>
  C6. With \<open>sigma_squared = sigma ** 2\<close> and \<open>sigma > 0\<close>, at an absolute difference of
  exactly \<open>1 / sigma_squared\<close> the quadratic branch and the linear branch of
  \<^verbatim>\<open>smooth_l1_distance\<close> have the same value, \<open>0.5 / sigma_squared\<close>, it is the value
  that the \<^verbatim>\<open>where\<close> of lines 132 to 136 selects there, and the loss is a continuous
  function of the difference at that point.
\<close>

theorem smooth_l1_distance_branches_agree:
  assumes "0 < sigma" and "\<bar>diff\<bar> = 1 / sigma ^ 2"
  shows "smooth_l1_quadratic (sigma ^ 2) (fl_abs (Fin diff))
           = smooth_l1_linear (sigma ^ 2) (fl_abs (Fin diff))
       \<and> smooth_l1_where (sigma ^ 2) (fl_abs (Fin diff)) = Fin (0.5 / sigma ^ 2)
       \<and> isCont (\<lambda>d. the_Fin (smooth_l1_where (sigma ^ 2) (fl_abs (Fin d)))) diff"
proof -
  define s where "s = sigma ^ 2"
  have s: "0 < s"
    using assms(1) by (simp add: s_def)
  have a: "fl_abs (Fin diff) = Fin (1 / s)"
    using assms(2) by (simp add: s_def)
  have q: "smooth_l1_quadratic s (Fin (1 / s)) = Fin (0.5 / s)"
    using s by (simp add: smooth_l1_quadratic_def)
  have l: "smooth_l1_linear s (Fin (1 / s)) = Fin (0.5 / s)"
    using s by (simp add: smooth_l1_linear_def fl_sub_def field_simps)
  have w: "smooth_l1_where s (Fin (1 / s)) = smooth_l1_linear s (Fin (1 / s))"
    by (simp add: smooth_l1_where_def)
  have c: "isCont (\<lambda>d. the_Fin (smooth_l1_where s (fl_abs (Fin d)))) diff"
    using s by (rule smooth_l1_where_isCont)
  from q l w have "smooth_l1_quadratic s (fl_abs (Fin diff)) = smooth_l1_linear s (fl_abs (Fin diff))"
    and "smooth_l1_where s (fl_abs (Fin diff)) = Fin (0.5 / s)"
    unfolding a by simp_all
  with c show ?thesis
    unfolding s_def [symmetric] by (intro conjI)
qed

theorem smooth_l1_distance_branches_agree_witness:
  "smooth_l1_quadratic (3 ^ 2) (fl_abs (Fin (- (1 / 9)))) = Fin (1 / 18)
   \<and> smooth_l1_linear (3 ^ 2) (fl_abs (Fin (- (1 / 9)))) = Fin (1 / 18)
   \<and> smooth_l1_where (3 ^ 2) (fl_abs (Fin (- (1 / 9)))) = Fin (1 / 18)"
proof -
  have q: "smooth_l1_quadratic (3 ^ 2) (fl_abs (Fin (- (1 / 9)))) = Fin (1 / 18)"
    by (simp add: smooth_l1_quadratic_def)
  have "(0::real) < 3" and "\<bar>- (1 / 9)\<bar> = 1 / (3::real) ^ 2"
    by simp_all
  from smooth_l1_distance_branches_agree [OF this] q show ?thesis
    by simp
qed

lemma smooth_ln_true_fn_at_one: "fl_neg (fl_log (fl_sub (Fin 1) (Fin 1))) = PInf"
  by (simp add: fl_sub_def)

text \<open>
  C10. With the \<open>delta\<close> of the repulsion loss, \<open>0.5\<close>, \<^verbatim>\<open>smooth_ln\<close> is finite on the
  whole of \<open>[0, 1]\<close>: up to \<open>0.5\<close> it is \<open>-ln(1 - x)\<close>, above \<open>0.5\<close> it is the linear
  branch. At \<open>x = 1\<close> the logarithmic branch is infinite
  (\<open>smooth_ln_true_fn_at_one\<close>), and it is not the one selected.
\<close>

theorem smooth_ln_finite:
  assumes "0 \<le> x" and "x \<le> 1"
  shows "is_Fin (smooth_ln (Fin x) 0.5)
       \<and> smooth_ln (Fin x) 0.5
           = (if x \<le> 0.5 then Fin (- ln (1 - x))
              else Fin ((x - 0.5) / (1 - 0.5) - ln (1 - 0.5)))"
  using assms by (simp add: smooth_ln_def fl_less_equal_def fl_sub_def Let_def)

theorem smooth_ln_finite_witness:
  "is_Fin (smooth_ln (Fin 1) 0.5) \<and> smooth_ln (Fin 1) 0.5 = Fin (1 - ln (1 / 2))"
  using smooth_ln_finite [of 1] by simp

section \<open>Properties of the repulsion loss\<close>

lemma slice_from_one:
  assumes "0 \<le> stop"
  shows "slice 1 stop xs = take (nat stop - 1) (drop 1 xs)"
proof (cases xs)
  case Nil
  then show ?thesis by (simp add: slice_def)
next
  case (Cons x rest)
  with assms show ?thesis
    by (auto simp: slice_def Let_def min_def nat_diff_distrib' drop_Cons')
qed

lemma target_rows_take:
  assumes "0 \<le> n" and "n < 2 ^ 31"
  shows "target_rows ((image_w, image_h, Fin (of_int n), z) # boxes)
           = Inr (image_w, image_h, take (nat n - 1) boxes)"
  using assms by (simp add: target_rows_def cast_int32_def ebind_def slice_from_one)

text \<open>
  C1. Row 0 of the target says \<open>annotations_len = 2\<close> and two boxes follow it. Line 191,
  \<^verbatim>\<open>y_true[1:annotations_len, :4]\<close>, stops before row \<open>annotations_len\<close>: the rows taken
  are rows 1 to \<open>annotations_len - 1\<close> (\<open>target_rows_take\<close>), here row 1 alone, and the
  second box is left out.
\<close>

theorem target_rows_two_annotations:
  "target_rows [(Fin 100, Fin 50, Fin 2, Fin 0),
                (Fin 10, Fin 10, Fin 20, Fin 20),
                (Fin 30, Fin 30, Fin 40, Fin 40)]
     = Inr (Fin 100, Fin 50, [(Fin 10, Fin 10, Fin 20, Fin 20)])"
  by (simp add: target_rows_def cast_int32_def ebind_def slice_def)

lemma slice_from_one_length: "length (slice 1 stop xs) \<le> length xs - 1"
  by (cases xs) (simp_all add: slice_def Let_def)

lemma target_rows_length:
  assumes "target_rows y_true = Inr (image_w, image_h, rows)"
  shows "length rows \<le> length y_true - 1"
proof (cases y_true)
  case Nil
  with assms show ?thesis by (simp add: target_rows_def)
next
  case (Cons m boxes)
  obtain w h l z where m: "m = (w, h, l, z)"
    by (cases m) auto
  from assms obtain n where "rows = slice 1 n y_true"
    unfolding Cons m target_rows_def by (cases "cast_int32 l") (auto simp: ebind_def)
  then show ?thesis
    using slice_from_one_length [of n y_true] by simp
qed

lemma emap_gather:
  assumes "list_all (\<lambda>i. i < length xs) indices"
  shows "emap (gather xs) indices = Inr (map (\<lambda>i. xs ! i) indices)"
  using assms by (induction indices) (simp_all add: gather_def ebind_def)

lemma gather_nd_where_indices:
  assumes "length bs \<le> length xs"
  shows "gather_nd xs (where_indices bs) = Inr (map (\<lambda>i. xs ! i) (where_indices bs))"
proof -
  have "list_all (\<lambda>i. i < length xs) (where_indices bs)"
    using assms by (auto simp: list_all_iff set_where_indices)
  then show ?thesis
    unfolding gather_nd_def by (rule emap_gather)
qed

lemma filter_predictions_total:
  "\<exists>kept iou. filter_predictions y_true y_pred = Inr (kept, iou)
     \<and> ncols iou = length y_true \<and> length (rws iou) = length kept"
proof -
  define m where "m = bbox_overlap_iou y_pred y_true"
  define bs where "bs = map (\<lambda>h. fl_greater h (Fin 0.5)) (map reduce_max (rws m))"
  have len: "length bs = length y_pred" "length (rws m) = length y_pred"
    by (simp_all add: bs_def m_def bbox_overlap_iou_def)
  have g1: "gather_nd y_pred (where_indices bs) = Inr (map (\<lambda>i. y_pred ! i) (where_indices bs))"
    by (rule gather_nd_where_indices) (simp add: len)
  have g2: "gather_nd (rws m) (where_indices bs) = Inr (map (\<lambda>i. rws m ! i) (where_indices bs))"
    by (rule gather_nd_where_indices) (simp add: len)
  have "filter_predictions y_true y_pred
      = Inr (map (\<lambda>i. y_pred ! i) (where_indices bs),
             \<lparr>ncols = ncols m, rws = map (\<lambda>i. rws m ! i) (where_indices bs)\<rparr>)"
    unfolding filter_predictions_def Let_def m_def [symmetric] bs_def [symmetric] g1 g2
    by (simp add: ebind_def)
  moreover have "ncols m = length y_true"
    by (simp add: m_def bbox_overlap_iou_def)
  ultimately show ?thesis
    by simp
qed

lemma fl_sum_with_zero: "fl_sum [a, Fin 0] = a"
  by (cases a) (simp_all add: fl_sum_def)

lemma repulsion_term_gt_few_columns:
  assumes "ncols iou_over_predicted < 2"
  shows "repulsion_term_gt y_true y_pred iou_over_predicted alpha = Inr (Fin 0)"
  using assms by (simp add: repulsion_term_gt_def predictions_empty_def)

lemma regression_loss_one_unfold:
  assumes "target_rows y_true = Inr (image_w, image_h, rows)"
    and "filter_predictions (map (normalize_box image_w image_h) rows)
           (map (normalize_box image_w image_h) y_pred) = Inr (kept, iou)"
  shows "regression_loss_one y_true y_pred
           = loss_terms (map (normalize_box image_w image_h) rows) kept iou"
  using assms by (simp add: regression_loss_one_def ebind_def Let_def)

text \<open>
  C8. Once row 0 of the target is read, the filter of lines 197 to 202 never fails, and
  whenever no ground-truth row is taken, no prediction is kept by the filter
  \<open>highest_iou > 0.5\<close>, or the overlap matrix has no column, \<^verbatim>\<open>regression_loss_one\<close>
  returns \<open>0.0\<close> and no error.
\<close>

theorem regression_loss_one_no_data:
  assumes "target_rows y_true = Inr (image_w, image_h, rows)"
  shows "\<exists>kept iou.
           filter_predictions (map (normalize_box image_w image_h) rows)
             (map (normalize_box image_w image_h) y_pred) = Inr (kept, iou)
         \<and> (rows = [] \<or> kept = [] \<or> ncols iou = 0
              \<longrightarrow> regression_loss_one y_true y_pred = Inr (Fin 0))"
proof -
  let ?gt = "map (normalize_box image_w image_h) rows"
  obtain kept iou where f: "filter_predictions ?gt (map (normalize_box image_w image_h) y_pred)
      = Inr (kept, iou)" and n: "ncols iou = length ?gt" and k: "length (rws iou) = length kept"
    using filter_predictions_total by blast
  show ?thesis
  proof (intro exI conjI impI)
    show "filter_predictions ?gt (map (normalize_box image_w image_h) y_pred) = Inr (kept, iou)"
      by (rule f)
  next
    assume "rows = [] \<or> kept = [] \<or> ncols iou = 0"
    then have "\<not> has_data ?gt iou"
      using n k by (auto simp: has_data_def)
    then show "regression_loss_one y_true y_pred = Inr (Fin 0)"
      by (simp add: regression_loss_one_unfold [OF assms f] loss_terms_def)
  qed
qed

theorem regression_loss_one_no_data_witness:
  "regression_loss_one [(Fin 100, Fin 50, Fin 0, Fin 0)] [(Fin 10, Fin 10, Fin 20, Fin 20)]
     = Inr (Fin 0)
   \<and> regression_loss_one
       [(Fin 100, Fin 100, Fin 2, Fin 0), (Fin 10, Fin 10, Fin 50, Fin 50),
        (Fin 60, Fin 60, Fin 90, Fin 90)]
       [(Fin 0, Fin 0, Fin 1000, Fin 1000)] = Inr (Fin 0)"
proof -
  have t0: "target_rows [(Fin 100, Fin 50, Fin 0, Fin 0)] = Inr (Fin 100, Fin 50, [])"
    by (simp add: target_rows_def cast_int32_def ebind_def slice_def)
  have a: "regression_loss_one [(Fin 100, Fin 50, Fin 0, Fin 0)]
      [(Fin 10, Fin 10, Fin 20, Fin 20)] = Inr (Fin 0)"
    using regression_loss_one_no_data [OF t0, of "[(Fin 10, Fin 10, Fin 20, Fin 20)]"]
    by blast
  let ?Y = "[(Fin 100, Fin 100, Fin 2, Fin 0), (Fin 10, Fin 10, Fin 50, Fin 50),
        (Fin 60, Fin 60, Fin 90, Fin 90)]"
  have t1: "target_rows ?Y = Inr (Fin 100, Fin 100, [(Fin 10, Fin 10, Fin 50, Fin 50)])"
    by (simp add: target_rows_def cast_int32_def ebind_def slice_def)
  have f: "filter_predictions (map (normalize_box (Fin 100) (Fin 100)) [(Fin 10, Fin 10, Fin 50, Fin 50)])
      (map (normalize_box (Fin 100) (Fin 100)) [(Fin 0, Fin 0, Fin 1000, Fin 1000)])
      = Inr ([], \<lparr>ncols = 1, rws = []\<rparr>)"
    by (simp add: normalize_box_def filter_predictions_def bbox_overlap_iou_def iou_entry_def
        fl_sub_def reduce_max_def where_indices_def fl_greater_def gather_nd_def ebind_def)
  have b: "regression_loss_one ?Y [(Fin 0, Fin 0, Fin 1000, Fin 1000)] = Inr (Fin 0)"
    using regression_loss_one_no_data [OF t1, of "[(Fin 0, Fin 0, Fin 1000, Fin 1000)]"]
    unfolding f by auto
  from a b show ?thesis ..
qed


text \<open>
  C3. When fewer than two ground-truth rows are taken (exactly one, or none),
  \<^verbatim>\<open>repulsion_term_gt\<close> is exactly \<open>0.0\<close> on the filtered data and the loss of the image
  is the attraction term alone, whatever it is (a number or an error), or \<open>0.0\<close> when
  the guard \<^verbatim>\<open>has_data\<close> is false. The rows taken are never more than the rows that
  follow row 0 (\<open>target_rows_length\<close>), so a target with one box is such a case.
\<close>

theorem repulsion_term_gt_single_box:
  assumes "target_rows y_true = Inr (image_w, image_h, rows)" and "length rows < 2"
  shows "\<exists>kept iou.
           filter_predictions (map (normalize_box image_w image_h) rows)
             (map (normalize_box image_w image_h) y_pred) = Inr (kept, iou)
         \<and> repulsion_term_gt (map (normalize_box image_w image_h) rows) kept iou 0.5
             = Inr (Fin 0)
         \<and> regression_loss_one y_true y_pred
             = (if has_data (map (normalize_box image_w image_h) rows) iou
                then attraction_term (map (normalize_box image_w image_h) rows) kept iou
                else Inr (Fin 0))"
proof -
  let ?gt = "map (normalize_box image_w image_h) rows"
  obtain kept iou where f: "filter_predictions ?gt (map (normalize_box image_w image_h) y_pred)
      = Inr (kept, iou)" and n: "ncols iou = length ?gt"
    using filter_predictions_total by blast
  have r: "repulsion_term_gt ?gt kept iou alpha = Inr (Fin 0)" for alpha
    using n assms(2) by (simp add: repulsion_term_gt_few_columns)
  have "loss_terms ?gt kept iou
      = (if has_data ?gt iou then attraction_term ?gt kept iou else Inr (Fin 0))"
    by (cases "attraction_term ?gt kept iou")
      (simp_all add: loss_terms_def r ebind_def fl_sum_with_zero)
  then have "regression_loss_one y_true y_pred
      = (if has_data ?gt iou then attraction_term ?gt kept iou else Inr (Fin 0))"
    by (simp add: regression_loss_one_unfold [OF assms(1) f])
  with f r show ?thesis
    by blast
qed


theorem repulsion_term_gt_single_box_witness:
  "regression_loss_one
       [(Fin 100, Fin 100, Fin 2, Fin 0), (Fin 10, Fin 10, Fin 50, Fin 50),
        (Fin 60, Fin 60, Fin 90, Fin 90)]
       [(Fin 10, Fin 10, Fin 60, Fin 50)] = Inr (Fin (9 / 200))
   \<and> attraction_term [(Fin (1 / 10), Fin (1 / 10), Fin (1 / 2), Fin (1 / 2))]
       [(Fin (1 / 10), Fin (1 / 10), Fin (3 / 5), Fin (1 / 2))]
       \<lparr>ncols = 1, rws = [[Fin (14 / 15)]]\<rparr> = Inr (Fin (9 / 200))
   \<and> repulsion_term_gt [(Fin (1 / 10), Fin (1 / 10), Fin (1 / 2), Fin (1 / 2))]
       [(Fin (1 / 10), Fin (1 / 10), Fin (3 / 5), Fin (1 / 2))]
       \<lparr>ncols = 1, rws = [[Fin (14 / 15)]]\<rparr> 0.5 = Inr (Fin 0)"
proof -
  let ?Y = "[(Fin 100, Fin 100, Fin 2, Fin 0), (Fin 10, Fin 10, Fin 50, Fin 50),
        (Fin 60, Fin 60, Fin 90, Fin 90)]"
  let ?P = "[(Fin 10, Fin 10, Fin 60, Fin 50)]"
  let ?gt = "[(Fin (1 / 10), Fin (1 / 10), Fin (1 / 2), Fin (1 / 2))]"
  let ?kept = "[(Fin (1 / 10), Fin (1 / 10), Fin (3 / 5), Fin (1 / 2))]"
  let ?iou = "\<lparr>ncols = 1, rws = [[Fin (14 / 15)]]\<rparr>"
  have t: "target_rows ?Y = Inr (Fin 100, Fin 100, [(Fin 10, Fin 10, Fin 50, Fin 50)])"
    by (simp add: target_rows_def cast_int32_def ebind_def slice_def)
  have g: "map (normalize_box (Fin 100) (Fin 100)) [(Fin 10, Fin 10, Fin 50, Fin 50)] = ?gt"
    by (simp add: normalize_box_def)
  have p: "map (normalize_box (Fin 100) (Fin 100)) ?P = ?kept"
    by (simp add: normalize_box_def)
  have f: "filter_predictions ?gt ?kept = Inr (?kept, ?iou)"
    by (simp add: filter_predictions_def bbox_overlap_iou_def iou_entry_def
        fl_sub_def reduce_max_def where_indices_def fl_greater_def gather_nd_def gather_def
        ebind_def)
  have h: "has_data ?gt ?iou"
    by (simp add: has_data_def)
  have a: "attraction_term ?gt ?kept ?iou = Inr (Fin (9 / 200))"
    by (simp add: attraction_term_def argmax_def argmax_indexed_def gather_def ebind_def
        smooth_l1_distance_def broadcast_rows_def box_row_def smooth_l1_where_def
        smooth_l1_quadratic_def smooth_l1_linear_def fl_sub_def fl_sum_def)
  from repulsion_term_gt_single_box [OF t, of ?P]
  show ?thesis
    unfolding g p f using h a by auto
qed

end
